theory Spec2Isabelle
  imports Main "HOL-Library.Sublist" "HOL-Library.AList"
begin

section \<open>Strings: the library functions the templates go through\<close>

text \<open>
  A Python \<open>str\<close> is modelled as a \<open>string\<close>, the list of the bytes of its UTF-8
  encoding; all the text of \<^verbatim>\<open>scaffold.py\<close> is ASCII. \<open>str_split sep s\<close> is
  \<^verbatim>\<open>s.split(sep)\<close> for a one-character separator and \<open>str_join sep xs\<close> is
  \<^verbatim>\<open>sep.join(xs)\<close>.
\<close>

fun str_split :: "char \<Rightarrow> string \<Rightarrow> string list" where
  "str_split sep [] = [[]]"
| "str_split sep (c # cs) =
     (if c = sep then [] # str_split sep cs
      else (case str_split sep cs of [] \<Rightarrow> [[c]] | l # ls \<Rightarrow> (c # l) # ls))"

fun str_join :: "string \<Rightarrow> string list \<Rightarrow> string" where
  "str_join sep [] = []"
| "str_join sep [l] = l"
| "str_join sep (l # ls) = l @ sep @ str_join sep ls"

text \<open>
  \<^verbatim>\<open>str.lstrip()\<close> drops the leading white space. \<open>isspace\<close> lists the ASCII
  characters Python counts as white space; every text \<open>lstrip\<close> is applied to below
  starts with the template's own ASCII characters.
\<close>

definition isspace :: "char \<Rightarrow> bool" where
  "isspace c \<longleftrightarrow> c \<in> set [CHR 0x09, CHR 0x0A, CHR 0x0B, CHR 0x0C, CHR 0x0D,
                          CHR 0x1C, CHR 0x1D, CHR 0x1E, CHR 0x1F, CHR 0x20]"

definition lstrip :: "string \<Rightarrow> string" where
  "lstrip s = dropWhile isspace s"

text \<open>
  \<^verbatim>\<open>textwrap.dedent\<close>, as CPython implements it with regular expressions:
  lines made of blanks and tabs only are emptied, the indentation of every line that has
  another character is collected, the margin is narrowed line by line to what all of them
  share, and a non-empty margin is removed from the start of every line that has it.
\<close>

definition blank :: "char \<Rightarrow> bool" where
  "blank c \<longleftrightarrow> c = CHR 0x20 \<or> c = CHR 0x09"

definition whitespace_only :: "string \<Rightarrow> bool" where
  "whitespace_only l \<longleftrightarrow> l \<noteq> [] \<and> list_all blank l"

definition leading_whitespace :: "string \<Rightarrow> string option" where
  "leading_whitespace l = (if list_all blank l then None else Some (takeWhile blank l))"

fun common_prefix :: "string \<Rightarrow> string \<Rightarrow> string" where
  "common_prefix (x # xs) (y # ys) = (if x = y then x # common_prefix xs ys else [])"
| "common_prefix _ _ = []"

definition narrow_margin :: "string option \<Rightarrow> string \<Rightarrow> string option" where
  "narrow_margin margin indent =
     (case margin of
        None \<Rightarrow> Some indent
      | Some m \<Rightarrow>
          if prefix m indent then Some m
          else if prefix indent m then Some indent
          else Some (common_prefix m indent))"

definition remove_margin :: "string \<Rightarrow> string \<Rightarrow> string" where
  "remove_margin m l = (if prefix m l then drop (length m) l else l)"

definition dedent :: "string \<Rightarrow> string" where
  "dedent text =
     (let ls = map (\<lambda>l. if whitespace_only l then [] else l) (str_split (CHR 0x0A) text);
          indents = List.map_filter leading_whitespace ls;
          margin = foldl narrow_margin None indents
      in case margin of
           None \<Rightarrow> str_join [CHR 0x0A] ls
         | Some m \<Rightarrow>
             if m \<noteq> [] then str_join [CHR 0x0A] (map (remove_margin m) ls)
             else str_join [CHR 0x0A] ls)"

section \<open>Paths\<close>

text \<open>
  A \<^verbatim>\<open>pathlib\<close> path on POSIX: the anchor (empty for a relative path, one slash,
  or two slashes when the text starts with exactly two) and the tail, the list of its
  segments. Parsing drops empty segments and the segment \<^verbatim>\<open>.\<close>; a segment
  \<^verbatim>\<open>..\<close> is kept and left to the operating system.
\<close>

datatype ppath = PPath (anchor: string) (tail: "string list")

definition splitroot :: "string \<Rightarrow> string \<times> string" where
  "splitroot p =
     (if take 1 p \<noteq> ''/'' then ('''', p)
      else if take 1 (drop 1 p) \<noteq> ''/'' \<or> take 1 (drop 2 p) = ''/'' then (''/'', drop 1 p)
      else (''//'', drop 2 p))"

definition parse_path :: "string \<Rightarrow> ppath" where
  "parse_path p =
     (case splitroot p of
        (r, rel) \<Rightarrow> PPath r (filter (\<lambda>x. x \<noteq> [] \<and> x \<noteq> ''.'') (str_split (CHR ''/'') rel)))"

text \<open>
  \<open>joinpath p key\<close> is the operator \<^verbatim>\<open>p / key\<close> with a string on the right:
  a key that starts with a slash replaces the path, any other key adds its segments.
\<close>

definition joinpath :: "ppath \<Rightarrow> string \<Rightarrow> ppath" where
  "joinpath p key =
     (if take 1 key = ''/'' then parse_path key
      else PPath (anchor p) (tail p @ tail (parse_path key)))"

definition parent :: "ppath \<Rightarrow> ppath" where
  "parent p = (if tail p = [] then p else PPath (anchor p) (butlast (tail p)))"

definition str_path :: "ppath \<Rightarrow> string" where
  "str_path p =
     (if anchor p = [] \<and> tail p = [] then ''.''
      else anchor p @ str_join ''/'' (tail p))"

section \<open>The file system\<close>

text \<open>
  The file system is a tree of directories and regular files: an association list from
  absolute paths (the names from the top directory down, without \<^verbatim>\<open>.\<close> and
  \<^verbatim>\<open>..\<close>) to nodes, and the working directory against which a relative path is
  resolved. The top directory \<open>[]\<close> always exists. The state also carries the lines
  printed so far and what else a function of the process could read: the clock and the
  environment variables. No statement of \<^verbatim>\<open>scaffold.py\<close> reads or sets these two, so
  no operation below touches them. Symbolic links, permissions and resource limits are
  outside the model: the errors it knows are those that come from the shape of the tree
  and of the path.
\<close>

datatype node = Dir | File string

record world =
  cwd :: "string list"
  entries :: "(string list \<times> node) list"
  stdout :: "string list"
  clock :: nat
  environ :: "(string \<times> string) list"

datatype os_error =
    FileNotFoundError
  | NotADirectoryError
  | FileExistsError
  | IsADirectoryError
  | ValueError

definition lookup :: "world \<Rightarrow> string list \<Rightarrow> node option" where
  "lookup w q = (if q = [] then Some Dir else map_of (entries w) q)"

text \<open>
  Path resolution: from a directory, each segment is looked up in turn; the directory it
  is looked up in must exist and be a directory, and \<^verbatim>\<open>..\<close> leads to the parent.
  The node the last segment leads to is not inspected.
\<close>

fun walk :: "world \<Rightarrow> string list \<Rightarrow> string list \<Rightarrow> os_error + string list" where
  "walk w cur [] = Inr cur"
| "walk w cur (s # ss) =
     (case lookup w cur of
        None \<Rightarrow> Inl FileNotFoundError
      | Some (File _) \<Rightarrow> Inl NotADirectoryError
      | Some Dir \<Rightarrow> walk w (if s = ''..'' then butlast cur else cur @ [s]) ss)"

definition start :: "world \<Rightarrow> ppath \<Rightarrow> string list" where
  "start w p = (if anchor p = [] then cwd w else [])"

definition has_nul :: "ppath \<Rightarrow> bool" where
  "has_nul p \<longleftrightarrow> list_ex (\<lambda>s. CHR 0x00 \<in> set s) (tail p)"

definition resolve :: "world \<Rightarrow> ppath \<Rightarrow> os_error + string list" where
  "resolve w p = (if has_nul p then Inl ValueError else walk w (start w p) (tail p))"

text \<open>The system calls: \<^verbatim>\<open>stat\<close>, \<^verbatim>\<open>listdir\<close>, \<^verbatim>\<open>mkdir\<close>, and opening
  a file for writing followed by the write.\<close>

definition os_stat :: "world \<Rightarrow> ppath \<Rightarrow> os_error + node" where
  "os_stat w p =
     (case resolve w p of
        Inl e \<Rightarrow> Inl e
      | Inr q \<Rightarrow> (case lookup w q of None \<Rightarrow> Inl FileNotFoundError | Some n \<Rightarrow> Inr n))"

definition os_listdir :: "world \<Rightarrow> ppath \<Rightarrow> os_error + string list" where
  "os_listdir w p =
     (case resolve w p of
        Inl e \<Rightarrow> Inl e
      | Inr q \<Rightarrow>
          (case lookup w q of
             None \<Rightarrow> Inl FileNotFoundError
           | Some (File _) \<Rightarrow> Inl NotADirectoryError
           | Some Dir \<Rightarrow>
               Inr (map (\<lambda>e. last (fst e))
                      (filter (\<lambda>e. fst e \<noteq> [] \<and> butlast (fst e) = q) (entries w)))))"

definition os_mkdir :: "world \<Rightarrow> ppath \<Rightarrow> os_error + world" where
  "os_mkdir w p =
     (if has_nul p then Inl ValueError
      else if tail p = [] then Inl FileExistsError
      else
        (case walk w (start w p) (butlast (tail p)) of
           Inl e \<Rightarrow> Inl e
         | Inr d \<Rightarrow>
             (case lookup w d of
                None \<Rightarrow> Inl FileNotFoundError
              | Some (File _) \<Rightarrow> Inl NotADirectoryError
              | Some Dir \<Rightarrow>
                  if last (tail p) = ''..'' then Inl FileExistsError
                  else if lookup w (d @ [last (tail p)]) \<noteq> None then Inl FileExistsError
                  else Inr (w\<lparr>entries := (d @ [last (tail p)], Dir) # entries w\<rparr>))))"

definition os_write :: "world \<Rightarrow> ppath \<Rightarrow> string \<Rightarrow> os_error + world" where
  "os_write w p content =
     (if has_nul p then Inl ValueError
      else if tail p = [] then Inl IsADirectoryError
      else
        (case walk w (start w p) (butlast (tail p)) of
           Inl e \<Rightarrow> Inl e
         | Inr d \<Rightarrow>
             (case lookup w d of
                None \<Rightarrow> Inl FileNotFoundError
              | Some (File _) \<Rightarrow> Inl NotADirectoryError
              | Some Dir \<Rightarrow>
                  if last (tail p) = ''..'' then Inl IsADirectoryError
                  else if lookup w (d @ [last (tail p)]) = Some Dir then Inl IsADirectoryError
                  else Inr (w\<lparr>entries :=
                              AList.update (d @ [last (tail p)]) (File content) (entries w)\<rparr>))))"

text \<open>
  The methods of \<^verbatim>\<open>Path\<close> the program calls. \<open>exists\<close> and \<open>is_dir\<close> answer
  \<open>False\<close> on any error of \<open>os_stat\<close> the model has. An effectful method returns the
  exception it raised, if any, and the state it left.
\<close>

definition exists :: "world \<Rightarrow> ppath \<Rightarrow> bool" where
  "exists w p = (case os_stat w p of Inl _ \<Rightarrow> False | Inr _ \<Rightarrow> True)"

definition is_dir :: "world \<Rightarrow> ppath \<Rightarrow> bool" where
  "is_dir w p = (case os_stat w p of Inr Dir \<Rightarrow> True | _ \<Rightarrow> False)"

definition read_text :: "world \<Rightarrow> ppath \<Rightarrow> string option" where
  "read_text w p = (case os_stat w p of Inr (File c) \<Rightarrow> Some c | _ \<Rightarrow> None)"

text \<open>
  \<^verbatim>\<open>Path.mkdir(parents, exist_ok)\<close>: when the system call finds no parent and
  \<open>parents\<close> is set, the parent is made first (with \<open>exist_ok\<close>) and the call is tried
  once more without \<open>parents\<close>; any other error of the operating system is dropped when
  \<open>exist_ok\<close> is set and the path is a directory.
\<close>

function mkdir :: "world \<Rightarrow> ppath \<Rightarrow> bool \<Rightarrow> bool \<Rightarrow> os_error option \<times> world" where
  "mkdir w p parents exist_ok =
     (case os_mkdir w p of
        Inr w' \<Rightarrow> (None, w')
      | Inl FileNotFoundError \<Rightarrow>
          if \<not> parents \<or> parent p = p then (Some FileNotFoundError, w)
          else
            (case mkdir w (parent p) True True of
               (Some e, w') \<Rightarrow> (Some e, w')
             | (None, w') \<Rightarrow> mkdir w' p False exist_ok)
      | Inl ValueError \<Rightarrow> (Some ValueError, w)
      | Inl e \<Rightarrow> if \<not> exist_ok \<or> \<not> is_dir w p then (Some e, w) else (None, w))"
  by pat_completeness auto
termination
  by (relation "measure (\<lambda>(w, p, parents, exist_ok). 2 * length (tail p) + (if parents then 1 else 0))")
     (auto simp: parent_def split: if_splits)

declare mkdir.simps [simp del]

definition write_text :: "world \<Rightarrow> ppath \<Rightarrow> string \<Rightarrow> os_error option \<times> world" where
  "write_text w p content =
     (case os_write w p content of Inl e \<Rightarrow> (Some e, w) | Inr w' \<Rightarrow> (None, w'))"

section \<open>The templates\<close>

text \<open>
  One definition per \<^verbatim>\<open>make_*\<close> function, with the literal text of the source
  line by line. A backslash at the end of a line of a Python literal joins it with the
  next line (the \<^verbatim>\<open>RUN\<close> line of the Dockerfile). In the two templates that use
  the project name, the name is put into the text before \<open>dedent\<close> sees it.

  A Python function can read the state of its process whatever its parameters are, so
  each of these functions is handed the state \<open>w\<close> it is called in, before its own
  parameters. None of the bodies mentions it.
\<close>

definition make_pyproject :: "world \<Rightarrow> string \<Rightarrow> string" where
  \<open>make_pyproject w project_name = lstrip (dedent (concat [
     ''\<newline>'',
     ''    [project]\<newline>'',
     ''    name = "'', project_name, ''"\<newline>'',
     ''    version = "0.1.0"\<newline>'',
     ''    description = "DDD FastAPI service"\<newline>'',
     ''    requires-python = ">=3.11"\<newline>'',
     ''    dependencies = [\<newline>'',
     ''      "fastapi[all]>=0.116.1",\<newline>'',
     ''      "pydantic>=2.3.0",\<newline>'',
     ''      "python-dotenv",\<newline>'',
     ''    ]\<newline>'',
     ''\<newline>'',
     ''    [tool.pytest.ini_options]\<newline>'',
     ''    addopts = "-q"\<newline>'',
     ''    testpaths = ["tests"]\<newline>'',
     ''    '']))\<close>

definition make_requirements :: "world \<Rightarrow> string" where
  \<open>make_requirements w = lstrip (dedent (concat [
     ''\<newline>'',
     ''    fastapi[all]==0.116.1\<newline>'',
     ''    pydantic>=2.3.0\<newline>'',
     ''    python-dotenv\<newline>'',
     ''    '']))\<close>

definition make_importlinter :: "world \<Rightarrow> string" where
  \<open>make_importlinter w = lstrip (dedent (concat [
     ''\<newline>'',
     ''    [importlinter]\<newline>'',
     ''    root_package = src\<newline>'',
     ''\<newline>'',
     ''    [importlinter:contract:layered-architecture]\<newline>'',
     ''    name = Layered architecture\<newline>'',
     ''    type = layers\<newline>'',
     ''    layers =\<newline>'',
     ''        src.api\<newline>'',
     ''        src.infrastructure\<newline>'',
     ''        src.application\<newline>'',
     ''        src.domain\<newline>'',
     ''    rules =\<newline>'',
     ''        src.api -> src.infrastructure\<newline>'',
     ''        src.infrastructure -> src.application\<newline>'',
     ''        src.application -> src.domain\<newline>'',
     ''    '']))\<close>

definition make_dockerfile :: "world \<Rightarrow> string" where
  \<open>make_dockerfile w = lstrip (dedent (concat [
     ''\<newline>'',
     ''    # syntax=docker/dockerfile:1.4\<newline>'',
     ''    FROM python:3.12-slim AS base\<newline>'',
     ''    WORKDIR /app\<newline>'',
     ''    COPY requirements.txt .\<newline>'',
     ''    RUN --mount=type=cache,target=/root/.cache/pip         pip install --upgrade pip && pip install -r requirements.txt\<newline>'',
     ''\<newline>'',
     ''    FROM base AS final\<newline>'',
     ''    COPY . .\<newline>'',
     ''    EXPOSE 8000\<newline>'',
     ''    CMD ["uvicorn", "src.main:app", "--host", "0.0.0.0", "--port", "8000"]\<newline>'',
     ''    '']))\<close>

definition make_compose :: "world \<Rightarrow> string \<Rightarrow> string" where
  \<open>make_compose w project_name = lstrip (dedent (concat [
     ''\<newline>'',
     ''    services:\<newline>'',
     ''      app:\<newline>'',
     ''        build:\<newline>'',
     ''          context: ../\<newline>'',
     ''          dockerfile: Dockerfile\<newline>'',
     ''        container_name: '', project_name, ''-app\<newline>'',
     ''        ports:\<newline>'',
     ''          - "8000:8000"\<newline>'',
     ''        volumes:\<newline>'',
     ''          - ../:/app\<newline>'',
     ''        env_file:\<newline>'',
     ''          - ../.env\<newline>'',
     ''        command: uvicorn src.main:app --host 0.0.0.0 --port 8000 --reload\<newline>'',
     ''    '']))\<close>

definition make_makefile :: "world \<Rightarrow> string" where
  \<open>make_makefile w = concat [
     ''.PHONY: run test test-cov lint format precommit-install up down shell sec contracts clean-pyc\<newline>'',
     ''\<newline>'',
     ''COMPOSE_DEV = docker compose -f infra/docker-compose.yml\<newline>'',
     ''\<newline>'',
     ''run:\<newline>'',
     [CHR 0x09], ''uvicorn src.main:app --host 0.0.0.0 --port 8000 --reload\<newline>'',
     ''\<newline>'',
     ''test:\<newline>'',
     [CHR 0x09], ''PYTHONPATH=. pytest -q\<newline>'',
     ''\<newline>'',
     ''test-cov:\<newline>'',
     [CHR 0x09], ''PYTHONPATH=. pytest --cov=src --cov-report=term-missing\<newline>'',
     ''\<newline>'',
     ''lint:\<newline>'',
     [CHR 0x09], ''ruff check --config=ruff.toml src/ --fix\<newline>'',
     ''\<newline>'',
     ''format:\<newline>'',
     [CHR 0x09], ''ruff check --config=pyproject.toml src --fix --select I --exclude "migrations"\<newline>'',
     [CHR 0x09], ''ruff format src\<newline>'',
     ''\<newline>'',
     ''precommit-install:\<newline>'',
     [CHR 0x09], ''python -m pip install pre-commit && pre-commit install\<newline>'',
     ''\<newline>'',
     ''build:\<newline>'',
     [CHR 0x09], ''$(COMPOSE_DEV) build --no-cache\<newline>'',
     ''\<newline>'',
     ''up:\<newline>'',
     [CHR 0x09], ''$(COMPOSE_DEV) up\<newline>'',
     ''\<newline>'',
     ''down:\<newline>'',
     [CHR 0x09], ''$(COMPOSE_DEV) down\<newline>'',
     ''\<newline>'',
     ''shell:\<newline>'',
     [CHR 0x09], ''$(COMPOSE_DEV) exec -it app bash\<newline>'',
     ''\<newline>'',
     ''sec:\<newline>'',
     [CHR 0x09], ''bandit -r src && '', [CHR 0x5C], ''\<newline>'',
     [CHR 0x09], ''pip-audit -r requirements-tests.txt\<newline>'',
     ''\<newline>'',
     ''contracts:\<newline>'',
     [CHR 0x09], ''lint-imports\<newline>'',
     ''\<newline>'',
     ''clean-pyc:\<newline>'',
     [CHR 0x09], ''find . -type d -name "__pycache__" -exec rm -rf {} +\<newline>'',
     [CHR 0x09], ''find . -type f -name "*.pyc" -delete\<newline>'',
     [CHR 0x09], ''find . -type f -name "*.pyo" -delete\<newline>'']\<close>

definition make_gitignore :: "world \<Rightarrow> string" where
  \<open>make_gitignore w = lstrip (dedent (concat [
     ''\<newline>'',
     ''    __pycache__/\<newline>'',
     ''    *.pyc\<newline>'',
     ''    .env\<newline>'',
     ''    .venv/\<newline>'',
     ''    .env.local\<newline>'',
     ''    .cache/\<newline>'',
     ''    htmlcov/\<newline>'',
     ''    coverage.xml\<newline>'',
     ''    .idea/\<newline>'',
     ''    .vscode/\<newline>'',
     ''    '']))\<close>

definition make_pytest_ini :: "world \<Rightarrow> string" where
  \<open>make_pytest_ini w = lstrip (dedent (concat [
     ''\<newline>'',
     ''    [pytest]\<newline>'',
     ''    addopts = -ra -q\<newline>'',
     ''    python_files = test_*.py\<newline>'',
     ''    python_classes = Test*\<newline>'',
     ''    testpaths = tests \<newline>'',
     ''    '']))\<close>

definition make_ruff_toml :: "world \<Rightarrow> string" where
  \<open>make_ruff_toml w = lstrip (dedent (concat [
     ''\<newline>'',
     ''    line-length = 120\<newline>'',
     ''\<newline>'',
     ''    [lint]\<newline>'',
     ''    select = [\<newline>'',
     ''        "ANN001", # missing-type-function-argument\<newline>'',
     ''        "ANN002", # missing-type-args\<newline>'',
     ''        "ANN003", # missing-type-kwargs\<newline>'',
     ''        "ANN201", # missing-return-type-undocumented-public-function\<newline>'',
     ''        "ANN202", # missing-return-type-private-function\<newline>'',
     ''        "ANN205", # missing-return-type-static-method\<newline>'',
     ''        "ANN206", # missing-return-type-class-method\<newline>'',
     ''        "ANN401", # any_type\<newline>'',
     ''        "B904",   # raise-without-from-inside-except\<newline>'',
     ''        "RSE102", # Unnecessary parentheses on raised exception\<newline>'',
     ''        "T20",    # print_found\<newline>'',
     ''        "TRY002", # raise-vanilla-class\<newline>'',
     ''        "C4",     # flake8-comprehensions\<newline>'',
     ''        "E",      # pycodestyle errors\<newline>'',
     ''        "F",      # pyflakes\<newline>'',
     ''        "I",      # isort\<newline>'',
     ''        "ICN",    # flake8-import-conventions\<newline>'',
     ''        "ISC",    # flake8-str-concat\<newline>'',
     ''        "RET",    # flake8-return\<newline>'',
     ''        "RUF",    # ruff\<newline>'',
     ''        "SIM",    # common simplification rules\<newline>'',
     ''        "UP",     # pyupgrade\<newline>'',
     ''        "W"       # pycodestyle warnings\<newline>'',
     ''    ]\<newline>'',
     ''    '']))\<close>

definition make_requirements_tests :: "world \<Rightarrow> string" where
  \<open>make_requirements_tests w = lstrip (dedent (concat [
     ''\<newline>'',
     ''    -r requirements.txt\<newline>'',
     ''    pytest==8.4.1\<newline>'',
     ''    pytest-cov==6.2.1\<newline>'',
     ''    pytest-mock==3.14.1\<newline>'',
     ''    bandit==1.8.5\<newline>'',
     ''    pip-audit==2.7.3\<newline>'',
     ''    import-linter==2.3\<newline>'',
     ''    ruff\<newline>'',
     ''    '']))\<close>

definition make_precommit :: "world \<Rightarrow> string" where
  \<open>make_precommit w = lstrip (dedent (concat [
     ''\<newline>'',
     ''    repos:\<newline>'',
     ''      - repo: https://github.com/astral-sh/ruff-pre-commit\<newline>'',
     ''        rev: v0.6.4\<newline>'',
     ''        hooks:\<newline>'',
     ''          - id: ruff\<newline>'',
     ''          - id: ruff-format\<newline>'',
     ''      - repo: https://github.com/pre-commit/pre-commit-hooks\<newline>'',
     ''        rev: v4.6.0\<newline>'',
     ''        hooks:\<newline>'',
     ''          - id: end-of-file-fixer\<newline>'',
     ''          - id: trailing-whitespace\<newline>'',
     ''    '']))\<close>

definition make_env_example :: "world \<Rightarrow> string" where
  \<open>make_env_example w = lstrip (dedent (concat [
     ''\<newline>'',
     ''    # Example environment variables\<newline>'',
     ''    APP_ENV=development\<newline>'',
     ''    APP_DEBUG=true\<newline>'',
     ''    '']))\<close>

definition make_main :: "world \<Rightarrow> string" where
  \<open>make_main w = lstrip (dedent (concat [
     ''\<newline>'',
     ''    from fastapi import FastAPI\<newline>'',
     ''    from src.api.v1.endpoints import health\<newline>'',
     ''\<newline>'',
     ''    app = FastAPI(title="DDD FastAPI Service")\<newline>'',
     ''    app.include_router(health.router, prefix="/v1")\<newline>'',
     ''    '']))\<close>

definition make_dependencies :: "world \<Rightarrow> string" where
  \<open>make_dependencies w = lstrip (dedent (concat [
     ''\<newline>'',
     ''    from fastapi import Depends\<newline>'',
     ''\<newline>'',
     ''    # Placeholder dependencies\<newline>'',
     ''    def get_example_dep():\<newline>'',
     ''        return "dep"\<newline>'',
     ''    '']))\<close>

definition make_schemas :: "world \<Rightarrow> string" where
  \<open>make_schemas w = lstrip (dedent (concat [
     ''\<newline>'',
     ''    from pydantic import BaseModel\<newline>'',
     ''\<newline>'',
     ''    class HealthResponse(BaseModel):\<newline>'',
     ''        status: str\<newline>'',
     ''    '']))\<close>

definition make_sample_endpoint :: "world \<Rightarrow> string" where
  \<open>make_sample_endpoint w = lstrip (dedent (concat [
     ''\<newline>'',
     ''    from fastapi import APIRouter\<newline>'',
     ''    from src.api.v1.schemas import HealthResponse\<newline>'',
     ''\<newline>'',
     ''    router = APIRouter()\<newline>'',
     ''\<newline>'',
     ''    @router.get("/health", response_model=HealthResponse)\<newline>'',
     ''    def health():\<newline>'',
     ''        return {"status": "ok"}\<newline>'',
     ''    '']))\<close>

definition make_test_health :: "world \<Rightarrow> string" where
  \<open>make_test_health w = lstrip (dedent (concat [
     ''\<newline>'',
     ''    from fastapi.testclient import TestClient\<newline>'',
     ''    from src.main import app\<newline>'',
     ''\<newline>'',
     ''    client = TestClient(app)\<newline>'',
     ''\<newline>'',
     ''    def test_health():\<newline>'',
     ''        resp = client.get("/v1/health")\<newline>'',
     ''        assert resp.status_code == 200\<newline>'',
     ''        assert resp.json()["status"] == "ok"\<newline>'',
     ''    '']))\<close>

definition make_config :: "world \<Rightarrow> string" where
  \<open>make_config w = lstrip (dedent (concat [
     ''\<newline>'',
     ''    from pydantic import BaseSettings, SettingsConfigDict\<newline>'',
     ''\<newline>'',
     ''    class Settings(BaseSettings):\<newline>'',
     ''        app_env: str = "development"\<newline>'',
     ''        app_debug: bool = True\<newline>'',
     ''        \<newline>'',
     ''        model_config = SettingsConfigDict(env_file=".env", env_file_encoding="utf-8")\<newline>'',
     ''    settings = Settings()\<newline>'',
     ''    '']))\<close>

section \<open>The program\<close>

text \<open>
  \<^verbatim>\<open>write_file\<close>, \<^verbatim>\<open>write_init\<close> and \<^verbatim>\<open>scaffold\<close>, statement by statement.
  Each returns the exception that ended it, if any, and the state it left. The command
  line (\<^verbatim>\<open>parse_args\<close>, \<^verbatim>\<open>main\<close>) only hands its three values to
  \<^verbatim>\<open>scaffold\<close> and is left out.
\<close>

definition write_file :: "world \<Rightarrow> ppath \<Rightarrow> string \<Rightarrow> bool \<Rightarrow> os_error option \<times> world" where
  "write_file w path content force =
     (case mkdir w (parent path) True True of
        (Some e, w') \<Rightarrow> (Some e, w')
      | (None, w') \<Rightarrow>
          if exists w' path \<and> \<not> force then (None, w')
          else write_text w' path content)"

definition write_init :: "world \<Rightarrow> ppath \<Rightarrow> bool \<Rightarrow> os_error option \<times> world" where
  "write_init w path force =
     (let init_file = joinpath path ''__init__.py'' in
      if \<not> exists w init_file \<or> force
      then write_text w init_file ''# Auto-generated __init__.py\<newline>''
      else (None, w))"

text \<open>The directory list of \<^verbatim>\<open>scaffold\<close>, in its order, and the loop over it.\<close>

definition dirs :: "ppath \<Rightarrow> ppath list" where
  "dirs root =
     [joinpath root ''src'',
      joinpath (joinpath root ''src'') ''api'',
      joinpath (joinpath (joinpath (joinpath root ''src'') ''api'') ''v1'') ''endpoints'',
      joinpath (joinpath (joinpath root ''src'') ''api'') ''v1'',
      joinpath (joinpath root ''src'') ''application'',
      joinpath (joinpath root ''src'') ''domain'',
      joinpath (joinpath root ''src'') ''infrastructure'',
      joinpath (joinpath root ''tests'') ''api'',
      joinpath (joinpath root ''tests'') ''application'',
      joinpath (joinpath root ''tests'') ''domain'',
      joinpath (joinpath root ''tests'') ''infrastructure'']"

fun make_dirs :: "world \<Rightarrow> ppath list \<Rightarrow> os_error option \<times> world" where
  "make_dirs w [] = (None, w)"
| "make_dirs w (d # ds) =
     (case mkdir w d True True of
        (Some e, w') \<Rightarrow> (Some e, w')
      | (None, w') \<Rightarrow>
          (case write_init w' d False of
             (Some e, w'') \<Rightarrow> (Some e, w'')
           | (None, w'') \<Rightarrow> make_dirs w'' ds))"

text \<open>
  The calls of \<^verbatim>\<open>write_file\<close>, in their order: each path with the call that renders
  the text written to it. Python evaluates that call when it reaches the
  \<^verbatim>\<open>write_file\<close> it is an argument of, so \<open>write_files\<close> makes it in the state the
  write starts from. They all pass the same \<open>force\<close>.
\<close>

definition artifacts :: "ppath \<Rightarrow> string \<Rightarrow> (ppath \<times> (world \<Rightarrow> string)) list" where
  "artifacts root project_name =
     [(joinpath root ''pyproject.toml'', \<lambda>w. make_pyproject w project_name),
      (joinpath root ''requirements.txt'', \<lambda>w. make_requirements w),
      (joinpath root ''requirements-tests.txt'', \<lambda>w. make_requirements_tests w),
      (joinpath root ''Dockerfile'', \<lambda>w. make_dockerfile w),
      (joinpath (joinpath root ''infra'') ''docker-compose.yml'', \<lambda>w. make_compose w project_name),
      (joinpath root ''Makefile'', \<lambda>w. make_makefile w),
      (joinpath root ''.gitignore'', \<lambda>w. make_gitignore w),
      (joinpath root ''pytest.ini'', \<lambda>w. make_pytest_ini w),
      (joinpath root ''.importlinter'', \<lambda>w. make_importlinter w),
      (joinpath root ''ruff.toml'', \<lambda>w. make_ruff_toml w),
      (joinpath root ''.pre-commit-config.yaml'', \<lambda>w. make_precommit w),
      (joinpath root ''.env.example'', \<lambda>w. make_env_example w),
      (joinpath root ''.env'', \<lambda>w. make_env_example w),
      (joinpath (joinpath root ''src'') ''main.py'', \<lambda>w. make_main w),
      (joinpath (joinpath (joinpath (joinpath root ''src'') ''api'') ''v1'') ''dependencies.py'',
         \<lambda>w. make_dependencies w),
      (joinpath (joinpath (joinpath (joinpath root ''src'') ''api'') ''v1'') ''schemas.py'',
         \<lambda>w. make_schemas w),
      (joinpath (joinpath (joinpath (joinpath (joinpath root ''src'') ''api'') ''v1'')
          ''endpoints'') ''health.py'', \<lambda>w. make_sample_endpoint w),
      (joinpath root ''src/config.py'', \<lambda>w. make_config w),
      (joinpath root ''src/.env'', \<lambda>w. make_env_example w),
      (joinpath (joinpath (joinpath root ''tests'') ''api'') ''test_health.py'', \<lambda>w. make_test_health w)]"

fun write_files ::
  "world \<Rightarrow> (ppath \<times> (world \<Rightarrow> string)) list \<Rightarrow> bool \<Rightarrow> os_error option \<times> world" where
  "write_files w [] force = (None, w)"
| "write_files w ((path, render) # rest) force =
     (case write_file w path (render w) force of
        (Some e, w') \<Rightarrow> (Some e, w')
      | (None, w') \<Rightarrow> write_files w' rest force)"

text \<open>
  How a run ends: \<open>Returned\<close> when \<^verbatim>\<open>scaffold\<close> returns, \<open>SysExit n\<close> for
  \<^verbatim>\<open>sys.exit(n)\<close>, \<open>Raised e\<close> for an exception nobody catches. The program has no
  \<^verbatim>\<open>try\<close>.
\<close>

datatype outcome = Returned | SysExit nat | Raised os_error

definition print :: "world \<Rightarrow> string \<Rightarrow> world" where
  "print w line = w\<lparr>stdout := stdout w @ [line]\<rparr>"

definition generate :: "world \<Rightarrow> ppath \<Rightarrow> string \<Rightarrow> bool \<Rightarrow> outcome \<times> world" where
  "generate w root project_name force =
     (case make_dirs w (dirs root) of
        (Some e, w') \<Rightarrow> (Raised e, w')
      | (None, w') \<Rightarrow>
          (case write_files w' (artifacts root project_name) force of
             (Some e, w'') \<Rightarrow> (Raised e, w'')
           | (None, w'') \<Rightarrow>
               (Returned, print w'' (''[OK] Project generated at: '' @ str_path root))))"

definition scaffold :: "world \<Rightarrow> string \<Rightarrow> string \<Rightarrow> bool \<Rightarrow> outcome \<times> world" where
  "scaffold w project_path project_name force =
     (let root = joinpath (parse_path project_path) project_name in
      if exists w root then
        (case os_listdir w root of
           Inl e \<Rightarrow> (Raised e, w)
         | Inr names \<Rightarrow>
             if names \<noteq> [] \<and> \<not> force
             then (SysExit 1,
                   print w (''[ERROR] Target path already exists and is not empty: '' @ str_path root))
             else generate w root project_name force)
      else generate w root project_name force)"

section \<open>Notions used in the statements\<close>

text \<open>
  The root of a run, as \<^verbatim>\<open>scaffold\<close> computes it; the marker of a directory, as
  \<^verbatim>\<open>write_init\<close> computes it; the paths a run may write a file to (the markers of
  the declared directories and the artifact paths); and the two ways the root guard can
  go.
\<close>

definition project_root :: "string \<Rightarrow> string \<Rightarrow> ppath" where
  "project_root project_path project_name = joinpath (parse_path project_path) project_name"

definition init_file :: "ppath \<Rightarrow> ppath" where
  "init_file d = joinpath d ''__init__.py''"

definition declared :: "ppath \<Rightarrow> string \<Rightarrow> ppath set" where
  "declared root n = init_file ` set (dirs root) \<union> fst ` set (artifacts root n)"

definition guard_fires :: "world \<Rightarrow> ppath \<Rightarrow> bool \<Rightarrow> bool" where
  "guard_fires w root force \<longleftrightarrow>
     \<not> force \<and> exists w root \<and> (\<exists>x xs. os_listdir w root = Inr (x # xs))"

definition guard_passes :: "world \<Rightarrow> ppath \<Rightarrow> bool \<Rightarrow> bool" where
  "guard_passes w root force \<longleftrightarrow>
     \<not> exists w root \<or> (\<exists>names. os_listdir w root = Inr names \<and> (names = [] \<or> force))"

text \<open>
  Every declared path is the root followed by fixed segments: \<open>under root rel\<close>. The
  lists of these segments, in the order of the program.
\<close>

definition under :: "ppath \<Rightarrow> string list \<Rightarrow> ppath" where
  "under root rel = PPath (anchor root) (tail root @ rel)"

definition dir_tails :: "string list list" where
  "dir_tails =
     [[''src''], [''src'', ''api''], [''src'', ''api'', ''v1'', ''endpoints''],
      [''src'', ''api'', ''v1''], [''src'', ''application''], [''src'', ''domain''],
      [''src'', ''infrastructure''], [''tests'', ''api''], [''tests'', ''application''],
      [''tests'', ''domain''], [''tests'', ''infrastructure'']]"

definition artifact_tails :: "string list list" where
  "artifact_tails =
     [[''pyproject.toml''], [''requirements.txt''], [''requirements-tests.txt''],
      [''Dockerfile''], [''infra'', ''docker-compose.yml''], [''Makefile''],
      [''.gitignore''], [''pytest.ini''], [''.importlinter''], [''ruff.toml''],
      [''.pre-commit-config.yaml''], [''.env.example''], [''.env''],
      [''src'', ''main.py''], [''src'', ''api'', ''v1'', ''dependencies.py''],
      [''src'', ''api'', ''v1'', ''schemas.py''],
      [''src'', ''api'', ''v1'', ''endpoints'', ''health.py''],
      [''src'', ''config.py''], [''src'', ''.env''], [''tests'', ''api'', ''test_health.py'']]"

definition marker_tails :: "string list list" where
  "marker_tails = map (\<lambda>d. d @ [''__init__.py'']) dir_tails"

text \<open>
  Relations between the state before and the state after. \<open>ext w w'\<close>: the working
  directory is the same, every node of \<open>w\<close> is still there and is still a directory or
  still a file. \<open>changed S w w'\<close>: moreover a node differs only where a directory was
  made at a free place, or where a path of \<open>S\<close> leads. \<open>modifies S w w'\<close>: a node that
  existed differs only where a path of \<open>S\<close> leads. \<open>apart w p S\<close>: no path of \<open>S\<close>
  leads where \<open>p\<close> leads.
\<close>

definition ext :: "world \<Rightarrow> world \<Rightarrow> bool" where
  "ext w w' \<longleftrightarrow>
     cwd w' = cwd w \<and>
     (\<forall>q n. lookup w q = Some n \<longrightarrow> (\<exists>n'. lookup w' q = Some n' \<and> (n' = Dir \<longleftrightarrow> n = Dir)))"

definition changed :: "ppath set \<Rightarrow> world \<Rightarrow> world \<Rightarrow> bool" where
  "changed S w w' \<longleftrightarrow>
     ext w w' \<and>
     (\<forall>q. lookup w' q = lookup w q \<or>
          (lookup w q = None \<and> lookup w' q = Some Dir) \<or>
          (\<exists>p\<in>S. resolve w' p = Inr q))"

definition modifies :: "ppath set \<Rightarrow> world \<Rightarrow> world \<Rightarrow> bool" where
  "modifies S w w' \<longleftrightarrow>
     ext w w' \<and>
     (\<forall>q. lookup w q \<noteq> None \<longrightarrow>
          lookup w' q = lookup w q \<or> (\<exists>p\<in>S. resolve w' p = Inr q))"

definition apart :: "world \<Rightarrow> ppath \<Rightarrow> ppath set \<Rightarrow> bool" where
  "apart w p S \<longleftrightarrow> (\<forall>p'\<in>S. \<forall>q. resolve w p = Inr q \<longrightarrow> resolve w p' \<noteq> Inr q)"

text \<open>
  Destinations on which a run cannot fail. \<open>plain rel\<close>: no segment is \<^verbatim>\<open>..\<close> or holds
  a NUL character. \<open>shape D F w r\<close>: below the directory \<open>r\<close>, every directory of \<open>w\<close>
  is at a place of \<open>D\<close>, every file at a place of \<open>F\<close>, and each lies in a directory.
  \<open>usable D F w root r\<close>: the root leads to \<open>r\<close>, which is a directory or can be made
  by one \<^verbatim>\<open>mkdir\<close>, and the tree below it has that shape. \<open>dir_ok\<close> and \<open>file_ok\<close>
  say that a place may hold a directory, or a file and nothing else, in such a tree;
  \<open>marker_ok\<close> that it may hold a file (a marker is written only where nothing is, so
  what else the place may hold does not matter); \<open>fits D F\<close> that all declared places
  may.
\<close>

definition plain :: "string list \<Rightarrow> bool" where
  "plain rel \<longleftrightarrow> ''..'' \<notin> set rel \<and> (\<forall>s\<in>set rel. CHR 0x00 \<notin> set s)"

definition shape :: "string list set \<Rightarrow> string list set \<Rightarrow> world \<Rightarrow> string list \<Rightarrow> bool" where
  "shape D F w r \<longleftrightarrow>
     (\<forall>rel. rel \<noteq> [] \<longrightarrow>
        (case lookup w (r @ rel) of
           None \<Rightarrow> True
         | Some Dir \<Rightarrow> rel \<in> D \<and> lookup w (r @ butlast rel) = Some Dir
         | Some (File c) \<Rightarrow> rel \<in> F \<and> lookup w (r @ butlast rel) = Some Dir))"

definition usable :: "string list set \<Rightarrow> string list set \<Rightarrow> world \<Rightarrow> ppath \<Rightarrow> string list \<Rightarrow> bool" where
  "usable D F w root r \<longleftrightarrow>
     \<not> has_nul root \<and> resolve w root = Inr r \<and>
     (lookup w r = Some Dir \<or>
      (lookup w r = None \<and> tail root \<noteq> [] \<and> last (tail root) \<noteq> ''..'')) \<and>
     shape D F w r"

definition dir_ok :: "string list set \<Rightarrow> string list set \<Rightarrow> string list \<Rightarrow> bool" where
  "dir_ok D F rel \<longleftrightarrow> plain rel \<and> (\<forall>pre. prefix pre rel \<and> pre \<noteq> [] \<longrightarrow> pre \<in> D \<and> pre \<notin> F)"

definition marker_ok :: "string list set \<Rightarrow> string list set \<Rightarrow> string list \<Rightarrow> bool" where
  "marker_ok D F rel \<longleftrightarrow> rel \<noteq> [] \<and> plain rel \<and> rel \<in> F \<and> dir_ok D F (butlast rel)"

definition file_ok :: "string list set \<Rightarrow> string list set \<Rightarrow> string list \<Rightarrow> bool" where
  "file_ok D F rel \<longleftrightarrow> rel \<noteq> [] \<and> plain rel \<and> rel \<in> F \<and> rel \<notin> D \<and> dir_ok D F (butlast rel)"

definition fits :: "string list set \<Rightarrow> string list set \<Rightarrow> bool" where
  "fits D F \<longleftrightarrow>
     (\<forall>d\<in>set dir_tails. dir_ok D F d \<and> marker_ok D F (d @ [''__init__.py''])) \<and>
     (\<forall>a\<in>set artifact_tails. file_ok D F a)"

text \<open>
  The shape of a generated tree: the names of its directories, the places of its
  directories (with \<^verbatim>\<open>infra\<close>, which \<^verbatim>\<open>write_file\<close> makes on the way) and of its
  files. A place is \<open>file_like\<close> when its last segment is not the name of a directory.
\<close>

definition seg_names :: "string set" where
  "seg_names = set [''src'', ''api'', ''v1'', ''endpoints'', ''application'', ''domain'',
                    ''infrastructure'', ''tests'', ''infra'']"

definition std_dirs :: "string list set" where
  "std_dirs = {pre. pre \<noteq> [] \<and> (\<exists>d\<in>set ([''infra''] # dir_tails). prefix pre d)}"

definition std_files :: "string list set" where
  "std_files = set artifact_tails \<union> set marker_tails"

definition file_like :: "string list \<Rightarrow> bool" where
  "file_like rel \<longleftrightarrow> rel \<noteq> [] \<and> plain rel \<and> last rel \<notin> seg_names"

text \<open>
  \<open>is_file w p\<close>: the path leads to a regular file, what \<^verbatim>\<open>Path.is_file\<close> answers.
  \<open>unobstructed w root\<close>: the root has no NUL character and can be resolved; it is a
  directory, or it is missing and its last segment names it; and below it every directory
  lies in a directory at a place where no marker or artifact goes, and every file lies in
  a directory at a place where no directory of the generated tree goes.
  \<open>inside r w w'\<close>: every node that is not at or below the place \<open>r\<close> is in \<open>w'\<close> what
  it was in \<open>w\<close>.
\<close>

definition is_file :: "world \<Rightarrow> ppath \<Rightarrow> bool" where
  "is_file w p = (case os_stat w p of Inr (File c) \<Rightarrow> True | _ \<Rightarrow> False)"

definition unobstructed :: "world \<Rightarrow> ppath \<Rightarrow> bool" where
  "unobstructed w root \<longleftrightarrow>
     (\<exists>r. \<not> has_nul root \<and> resolve w root = Inr r \<and>
          (lookup w r = Some Dir \<or>
           (lookup w r = None \<and> tail root \<noteq> [] \<and> last (tail root) \<noteq> ''..'')) \<and>
          (\<forall>rel. rel \<noteq> [] \<longrightarrow>
             (case lookup w (r @ rel) of
                None \<Rightarrow> True
              | Some Dir \<Rightarrow> rel \<notin> std_files \<and> lookup w (r @ butlast rel) = Some Dir
              | Some (File c) \<Rightarrow> rel \<notin> std_dirs \<and> lookup w (r @ butlast rel) = Some Dir)))"

definition inside :: "string list \<Rightarrow> world \<Rightarrow> world \<Rightarrow> bool" where
  "inside r w w' \<longleftrightarrow> (\<forall>q. \<not> prefix r q \<longrightarrow> lookup w' q = lookup w q)"

section \<open>Example states\<close>

text \<open>
  \<open>w_fresh\<close>: \<^verbatim>\<open>/tmp/out\<close> holds one directory and no \<^verbatim>\<open>billing\<close>.
  \<open>w_used\<close>: \<^verbatim>\<open>/tmp/out/billing\<close> holds a \<^verbatim>\<open>src\<close> directory with a marker of other
  text, a \<^verbatim>\<open>Makefile\<close> of other text and a file that is no artifact.
  \<open>w_blocked\<close>: \<^verbatim>\<open>/tmp/out/billing\<close> holds a directory named \<^verbatim>\<open>pyproject.toml\<close>.
  \<open>w_stuck\<close>: the same, with a \<^verbatim>\<open>Makefile\<close> of other text beside it.
  \<open>w_marked\<close>: \<^verbatim>\<open>/tmp/out/billing/src\<close> holds a directory named \<^verbatim>\<open>__init__.py\<close>.
  \<open>w_aliased\<close>: \<^verbatim>\<open>/tmp/out/src\<close> holds a directory named \<^verbatim>\<open>__init__.py\<close> and
  \<^verbatim>\<open>/tmp/out\<close> holds nothing else.
  \<open>w_plain\<close>: \<^verbatim>\<open>/tmp/out\<close> is an empty directory. \<open>w_other\<close>: \<^verbatim>\<open>/srv\<close> is an empty
  directory, at another time and with another environment.
\<close>

definition w_fresh :: world where
  "w_fresh =
     \<lparr>cwd = [''home''],
      entries = [([''home''], Dir), ([''tmp''], Dir), ([''tmp'', ''out''], Dir),
                 ([''tmp'', ''out'', ''other''], Dir)],
      stdout = [], clock = 0, environ = []\<rparr>"

definition w_used :: world where
  "w_used =
     \<lparr>cwd = [''home''],
      entries = [([''home''], Dir), ([''tmp''], Dir), ([''tmp'', ''out''], Dir),
                 ([''tmp'', ''out'', ''billing''], Dir),
                 ([''tmp'', ''out'', ''billing'', ''src''], Dir),
                 ([''tmp'', ''out'', ''billing'', ''src'', ''__init__.py''], File ''x = 1''),
                 ([''tmp'', ''out'', ''billing'', ''Makefile''], File ''all:''),
                 ([''tmp'', ''out'', ''billing'', ''notes.txt''], File ''keep'')],
      stdout = [], clock = 0, environ = []\<rparr>"

definition w_blocked :: world where
  "w_blocked =
     \<lparr>cwd = [''home''],
      entries = [([''home''], Dir), ([''tmp''], Dir), ([''tmp'', ''out''], Dir),
                 ([''tmp'', ''out'', ''billing''], Dir),
                 ([''tmp'', ''out'', ''billing'', ''pyproject.toml''], Dir)],
      stdout = [], clock = 0, environ = []\<rparr>"


definition w_marked :: world where
  "w_marked =
     \<lparr>cwd = [''home''],
      entries = [([''home''], Dir), ([''tmp''], Dir), ([''tmp'', ''out''], Dir),
                 ([''tmp'', ''out'', ''billing''], Dir),
                 ([''tmp'', ''out'', ''billing'', ''src''], Dir),
                 ([''tmp'', ''out'', ''billing'', ''src'', ''__init__.py''], Dir)],
      stdout = [], clock = 0, environ = []\<rparr>"

definition w_aliased :: world where
  "w_aliased =
     \<lparr>cwd = [''home''],
      entries = [([''home''], Dir), ([''tmp''], Dir), ([''tmp'', ''out''], Dir),
                 ([''tmp'', ''out'', ''src''], Dir),
                 ([''tmp'', ''out'', ''src'', ''__init__.py''], Dir)],
      stdout = [], clock = 0, environ = []\<rparr>"

definition w_plain :: world where
  "w_plain =
     \<lparr>cwd = [''home''],
      entries = [([''home''], Dir), ([''tmp''], Dir), ([''tmp'', ''out''], Dir)],
      stdout = [], clock = 0, environ = []\<rparr>"

definition w_other :: world where
  "w_other =
     \<lparr>cwd = [''home''],
      entries = [([''home''], Dir), ([''srv''], Dir)],
      stdout = [], clock = 86400, environ = [(''APP_ENV'', ''prod'')]\<rparr>"

section \<open>Lemmas\<close>

subsection \<open>States that extend a state\<close>

lemma ext_refl: "ext w w"
  by (simp add: ext_def)

lemma ext_trans:
  assumes "ext a b" and "ext b c"
  shows "ext a c"
  unfolding ext_def
proof (intro conjI allI impI)
  show "cwd c = cwd a" using assms by (simp add: ext_def)
next
  fix q n
  assume "lookup a q = Some n"
  with assms(1) obtain n' where n': "lookup b q = Some n'" "n' = Dir \<longleftrightarrow> n = Dir"
    unfolding ext_def by blast
  with assms(2) obtain n'' where "lookup c q = Some n''" "n'' = Dir \<longleftrightarrow> n' = Dir"
    unfolding ext_def by blast
  with n' show "\<exists>n'. lookup c q = Some n' \<and> (n' = Dir \<longleftrightarrow> n = Dir)" by simp
qed

lemma ext_dir: "ext w w' \<Longrightarrow> lookup w q = Some Dir \<Longrightarrow> lookup w' q = Some Dir"
  unfolding ext_def by blast

lemma walk_ext: "ext w w' \<Longrightarrow> walk w cur ss = Inr q \<Longrightarrow> walk w' cur ss = Inr q"
proof (induction ss arbitrary: cur)
  case Nil
  then show ?case by simp
next
  case (Cons s ss)
  from Cons.prems(2) have d: "lookup w cur = Some Dir"
    by (auto split: option.splits node.splits)
  have d': "lookup w' cur = Some Dir"
    using ext_dir[OF Cons.prems(1) d] .
  from Cons.prems(2) d have "walk w (if s = ''..'' then butlast cur else cur @ [s]) ss = Inr q"
    by simp
  then have "walk w' (if s = ''..'' then butlast cur else cur @ [s]) ss = Inr q"
    by (rule Cons.IH[OF Cons.prems(1)])
  with d' show ?case by simp
qed

lemma start_ext: "ext w w' \<Longrightarrow> start w' p = start w p"
  by (simp add: start_def ext_def)

lemma resolve_ext: "ext w w' \<Longrightarrow> resolve w p = Inr q \<Longrightarrow> resolve w' p = Inr q"
  by (auto simp: resolve_def start_ext walk_ext split: if_splits)

lemma exists_iff: "exists w p \<longleftrightarrow> (\<exists>q n. resolve w p = Inr q \<and> lookup w q = Some n)"
  by (auto simp: exists_def os_stat_def split: sum.splits option.splits)

lemma is_dir_iff: "is_dir w p \<longleftrightarrow> (\<exists>q. resolve w p = Inr q \<and> lookup w q = Some Dir)"
  by (auto simp: is_dir_def os_stat_def split: sum.splits option.splits node.splits)

lemma read_text_iff: "read_text w p = Some c \<longleftrightarrow> (\<exists>q. resolve w p = Inr q \<and> lookup w q = Some (File c))"
  by (auto simp: read_text_def os_stat_def split: sum.splits option.splits node.splits)

lemma exists_ext:
  assumes "ext w w'" and "exists w p"
  shows "exists w' p"
proof -
  from assms(2) obtain q n where q: "resolve w p = Inr q" "lookup w q = Some n"
    by (auto simp: exists_iff)
  from assms(1) q(2) obtain n' where "lookup w' q = Some n'"
    unfolding ext_def by blast
  with resolve_ext[OF assms(1) q(1)] show ?thesis by (auto simp: exists_iff)
qed

lemma is_dir_ext: "ext w w' \<Longrightarrow> is_dir w p \<Longrightarrow> is_dir w' p"
  unfolding is_dir_iff using resolve_ext ext_dir by blast

lemma is_dir_exists: "is_dir w p \<Longrightarrow> exists w p"
  by (auto simp: is_dir_iff exists_iff)

lemma read_text_exists: "read_text w p = Some c \<Longrightarrow> exists w p"
  by (auto simp: read_text_iff exists_iff)

lemma walk_append:
  "walk w cur (a @ b) = (case walk w cur a of Inl e \<Rightarrow> Inl e | Inr c \<Rightarrow> walk w c b)"
  by (induction a arbitrary: cur) (auto split: option.splits node.splits)

lemma walk_plain:
  "''..'' \<notin> set ss \<Longrightarrow> walk w cur ss = Inr q \<Longrightarrow> q = cur @ ss"
proof (induction ss arbitrary: cur)
  case Nil
  then show ?case by simp
next
  case (Cons s ss)
  from Cons.prems have "walk w (cur @ [s]) ss = Inr q"
    by (auto split: option.splits node.splits)
  with Cons.IH[of "cur @ [s]"] Cons.prems(1) show ?case by simp
qed

lemma changed_refl: "changed S w w"
  by (simp add: changed_def ext_refl)

lemma changed_ext: "changed S w w' \<Longrightarrow> ext w w'"
  by (simp add: changed_def)

lemma changed_mono: "changed S w w' \<Longrightarrow> S \<subseteq> T \<Longrightarrow> changed T w w'"
  unfolding changed_def by blast

lemma changed_trans:
  assumes ab: "changed S a b" and bc: "changed S b c"
  shows "changed S a c"
proof -
  have e: "ext a c" using ab bc by (auto simp: changed_def intro: ext_trans)
  have "lookup c q = lookup a q \<or> (lookup a q = None \<and> lookup c q = Some Dir) \<or>
        (\<exists>p\<in>S. resolve c p = Inr q)" for q
  proof -
    from ab have A: "lookup b q = lookup a q \<or> (lookup a q = None \<and> lookup b q = Some Dir) \<or>
        (\<exists>p\<in>S. resolve b p = Inr q)" by (simp add: changed_def)
    from bc have B: "lookup c q = lookup b q \<or> (lookup b q = None \<and> lookup c q = Some Dir) \<or>
        (\<exists>p\<in>S. resolve c p = Inr q)" by (simp add: changed_def)
    from bc have ebc: "ext b c" by (simp add: changed_def)
    show ?thesis
    proof (cases "lookup b q = lookup a q")
      case True
      with B show ?thesis by auto
    next
      case False
      with A consider "lookup a q = None" "lookup b q = Some Dir" | p where "p \<in> S" "resolve b p = Inr q"
        by auto
      then show ?thesis
      proof cases
        case 1
        with ext_dir[OF ebc 1(2)] show ?thesis by simp
      next
        case 2
        with resolve_ext[OF ebc 2(2)] show ?thesis by auto
      qed
    qed
  qed
  with e show ?thesis by (simp add: changed_def)
qed

lemma lookup_root [simp]: "lookup w [] = Some Dir"
  by (simp add: lookup_def)

lemma lookup_cons:
  "lookup (w\<lparr>entries := (k, v) # entries w\<rparr>) q = (if q = [] then Some Dir else if q = k then Some v else lookup w q)"
  by (simp add: lookup_def)

lemma lookup_update:
  "lookup (w\<lparr>entries := AList.update k v (entries w)\<rparr>) q = (if q = [] then Some Dir else if q = k then Some v else lookup w q)"
  by (simp add: lookup_def update_conv')

lemma os_mkdir_Inr:
  assumes "os_mkdir w p = Inr w'"
  obtains d where "\<not> has_nul p" and "tail p \<noteq> []" and
    "walk w (start w p) (butlast (tail p)) = Inr d" and
    "lookup w d = Some Dir" and "last (tail p) \<noteq> ''..''" and
    "lookup w (d @ [last (tail p)]) = None" and
    "w' = w\<lparr>entries := (d @ [last (tail p)], Dir) # entries w\<rparr>"
  using assms unfolding os_mkdir_def
  by (auto split: if_splits sum.splits option.splits node.splits)

lemma os_mkdir_changed:
  assumes "os_mkdir w p = Inr w'"
  shows "changed {} w w'"
proof -
  from assms obtain k where k: "lookup w k = None" "w' = w\<lparr>entries := (k, Dir) # entries w\<rparr>"
    by (rule os_mkdir_Inr)
  have l: "lookup w' q = (if q = k then Some Dir else lookup w q)" for q
    using k by (auto simp: lookup_cons)
  have c: "cwd w' = cwd w" using k(2) by simp
  show ?thesis
    unfolding changed_def ext_def using k(1) c by (auto simp: l)
qed

lemma os_mkdir_is_dir:
  assumes "os_mkdir w p = Inr w'"
  shows "is_dir w' p"
proof -
  from assms obtain d where
    nn: "\<not> has_nul p" and ne: "tail p \<noteq> []" and
    wd: "walk w (start w p) (butlast (tail p)) = Inr d" and
    ld: "lookup w d = Some Dir" and nd: "last (tail p) \<noteq> ''..''" and
    w': "w' = w\<lparr>entries := (d @ [last (tail p)], Dir) # entries w\<rparr>"
    by (rule os_mkdir_Inr)
  have e: "ext w w'" using os_mkdir_changed[OF assms] by (rule changed_ext)
  have t: "tail p = butlast (tail p) @ [last (tail p)]" using ne by simp
  have "walk w' (start w' p) (butlast (tail p)) = Inr d"
    using walk_ext[OF e wd] start_ext[OF e] by simp
  moreover have "lookup w' d = Some Dir" using ext_dir[OF e ld] .
  ultimately have "walk w' (start w' p) (butlast (tail p) @ [last (tail p)]) = Inr (d @ [last (tail p)])"
    using nd by (simp add: walk_append)
  with t have "resolve w' p = Inr (d @ [last (tail p)])"
    using nn by (simp add: resolve_def)
  moreover have "lookup w' (d @ [last (tail p)]) = Some Dir"
    by (simp add: w' lookup_cons)
  ultimately show ?thesis by (auto simp: is_dir_iff)
qed

lemma mkdir_Inr: "os_mkdir w p = Inr w1 \<Longrightarrow> mkdir w p a b = (None, w1)"
  by (simp add: mkdir.simps[of w p a b])

lemma mkdir_stop:
  "os_mkdir w p = Inl FileNotFoundError \<Longrightarrow> \<not> a \<or> parent p = p \<Longrightarrow>
   mkdir w p a b = (Some FileNotFoundError, w)"
  by (cases a) (auto simp: mkdir.simps[of w p True b] mkdir.simps[of w p False b])

lemma mkdir_rec:
  "os_mkdir w p = Inl FileNotFoundError \<Longrightarrow> parent p \<noteq> p \<Longrightarrow>
   mkdir w p True b =
     (case mkdir w (parent p) True True of
        (Some e, w') \<Rightarrow> (Some e, w')
      | (None, w') \<Rightarrow> mkdir w' p False b)"
  by (simp add: mkdir.simps[of w p True b])

lemma mkdir_other:
  "os_mkdir w p = Inl e \<Longrightarrow> e \<noteq> FileNotFoundError \<Longrightarrow>
   mkdir w p a b =
     (if e = ValueError then (Some ValueError, w)
      else if \<not> b \<or> \<not> is_dir w p then (Some e, w) else (None, w))"
  by (cases e) (simp_all add: mkdir.simps[of w p a b])

lemma mkdir_changed: "changed {} w (snd (mkdir w p parents exist_ok))"
proof (induction w p parents exist_ok rule: mkdir.induct)
  case (1 w p parents exist_ok)
  show ?case
  proof (cases "os_mkdir w p")
    case (Inr w')
    then show ?thesis by (simp add: mkdir_Inr os_mkdir_changed)
  next
    case (Inl e)
    show ?thesis
    proof (cases "e = FileNotFoundError")
      case False
      with Inl show ?thesis
        by (simp add: mkdir_other changed_refl)
    next
      case e: True
      show ?thesis
      proof (cases "\<not> parents \<or> parent p = p")
        case True
        with Inl e show ?thesis by (simp add: mkdir_stop changed_refl)
      next
        case c: False
        obtain r w1 where m1: "mkdir w (parent p) True True = (r, w1)"
          by (cases "mkdir w (parent p) True True")
        have c1: "changed {} w w1" using "1.IH"(1)[OF Inl e c] m1 by simp
        have unf: "mkdir w p parents exist_ok =
            (case r of Some e \<Rightarrow> (Some e, w1) | None \<Rightarrow> mkdir w1 p False exist_ok)"
          using Inl e c m1 by (simp add: mkdir_rec split: option.splits)
        show ?thesis
        proof (cases r)
          case (Some a)
          with unf c1 show ?thesis by simp
        next
          case None
          have "changed {} w1 (snd (mkdir w1 p False exist_ok))"
            using "1.IH"(2)[OF Inl e c m1[symmetric] None] .
          with c1 have "changed {} w (snd (mkdir w1 p False exist_ok))" by (rule changed_trans)
          with unf None show ?thesis by simp
        qed
      qed
    qed
  qed
qed

lemma mkdir_is_dir: "mkdir w p parents exist_ok = (None, w') \<Longrightarrow> is_dir w' p"
proof (induction w p parents exist_ok arbitrary: w' rule: mkdir.induct)
  case (1 w p parents exist_ok)
  show ?case
  proof (cases "os_mkdir w p")
    case (Inr w1)
    with "1.prems" have "w' = w1" by (simp add: mkdir_Inr)
    with Inr show ?thesis by (simp add: os_mkdir_is_dir)
  next
    case (Inl e)
    show ?thesis
    proof (cases "e = FileNotFoundError")
      case False
      with Inl "1.prems" show ?thesis
        by (auto simp: mkdir_other split: if_splits)
    next
      case e: True
      have c: "\<not> (\<not> parents \<or> parent p = p)"
      proof
        assume "\<not> parents \<or> parent p = p"
        with Inl e "1.prems" show False by (simp add: mkdir_stop)
      qed
      obtain r w1 where m1: "mkdir w (parent p) True True = (r, w1)"
        by (cases "mkdir w (parent p) True True")
      have unf: "mkdir w p parents exist_ok =
          (case r of Some e \<Rightarrow> (Some e, w1) | None \<Rightarrow> mkdir w1 p False exist_ok)"
        using Inl e c m1 by (simp add: mkdir_rec split: option.splits)
      with "1.prems" have r: "r = None" and m2: "mkdir w1 p False exist_ok = (None, w')"
        by (auto split: option.splits)
      show ?thesis
        using "1.IH"(2)[OF Inl e c m1[symmetric] r m2] .
    qed
  qed
qed

subsection \<open>What the writes do\<close>

lemma resolve_last:
  assumes "\<not> has_nul p" and "tail p \<noteq> []"
    and "walk w (start w p) (butlast (tail p)) = Inr d"
    and "lookup w d = Some Dir" and "last (tail p) \<noteq> ''..''"
  shows "resolve w p = Inr (d @ [last (tail p)])"
proof -
  have "walk w (start w p) (butlast (tail p) @ [last (tail p)]) = Inr (d @ [last (tail p)])"
    using assms(3,4,5) by (simp add: walk_append)
  with assms(1,2) show ?thesis by (simp add: resolve_def)
qed

lemma os_write_Inr:
  assumes "os_write w p c = Inr w'"
  obtains d where "\<not> has_nul p" and "tail p \<noteq> []" and
    "walk w (start w p) (butlast (tail p)) = Inr d" and
    "lookup w d = Some Dir" and "last (tail p) \<noteq> ''..''" and
    "lookup w (d @ [last (tail p)]) \<noteq> Some Dir" and
    "w' = w\<lparr>entries := AList.update (d @ [last (tail p)]) (File c) (entries w)\<rparr>"
  using assms unfolding os_write_def
  by (auto split: if_splits sum.splits option.splits node.splits)

lemma os_write_props:
  assumes "os_write w p c = Inr w'"
  shows "\<exists>k. k \<noteq> [] \<and> lookup w k \<noteq> Some Dir \<and> resolve w' p = Inr k \<and> cwd w' = cwd w \<and>
             (\<forall>q. lookup w' q = (if q = k then Some (File c) else lookup w q))"
proof -
  from assms obtain d where
    nn: "\<not> has_nul p" and ne: "tail p \<noteq> []" and
    wd: "walk w (start w p) (butlast (tail p)) = Inr d" and
    ld: "lookup w d = Some Dir" and nd: "last (tail p) \<noteq> ''..''" and
    nk: "lookup w (d @ [last (tail p)]) \<noteq> Some Dir" and
    w': "w' = w\<lparr>entries := AList.update (d @ [last (tail p)]) (File c) (entries w)\<rparr>"
    by (rule os_write_Inr)
  let ?k = "d @ [last (tail p)]"
  have l: "lookup w' q = (if q = ?k then Some (File c) else lookup w q)" for q
    unfolding w' by (auto simp: lookup_update)
  have c: "cwd w' = cwd w" unfolding w' by simp
  have e: "ext w w'"
    unfolding ext_def using nk c by (auto simp: l)
  have "resolve w' p = Inr ?k"
    using resolve_ext[OF e resolve_last[OF nn ne wd ld nd]] .
  with nk l c show ?thesis by blast
qed

lemma write_text_fail: "write_text w p c = (Some e, w') \<Longrightarrow> w' = w"
  by (auto simp: write_text_def split: sum.splits)

lemma write_text_changed: "changed {p} w (snd (write_text w p c))"
proof (cases "os_write w p c")
  case (Inl e)
  then show ?thesis by (simp add: write_text_def changed_refl)
next
  case (Inr w')
  from os_write_props[OF Inr] obtain k where
    k: "lookup w k \<noteq> Some Dir" "resolve w' p = Inr k" "cwd w' = cwd w"
       "\<And>q. lookup w' q = (if q = k then Some (File c) else lookup w q)"
    by blast
  have "changed {p} w w'"
    unfolding changed_def ext_def using k(1,2,3) by (auto simp: k(4))
  with Inr show ?thesis by (simp add: write_text_def)
qed

lemma write_text_read:
  assumes "write_text w p c = (None, w')"
  shows "read_text w' p = Some c"
proof -
  from assms have "os_write w p c = Inr w'"
    by (auto simp: write_text_def split: sum.splits)
  from os_write_props[OF this] show ?thesis
    by (auto simp: read_text_iff)
qed

lemma write_file_changed: "changed {path} w (snd (write_file w path c f))"
proof -
  obtain r w1 where m: "mkdir w (parent path) True True = (r, w1)"
    by (cases "mkdir w (parent path) True True")
  have c1: "changed {path} w w1"
    using mkdir_changed[of w "parent path" True True] m by (auto intro: changed_mono)
  show ?thesis
  proof (cases r)
    case (Some e)
    with m c1 show ?thesis by (simp add: write_file_def)
  next
    case None
    show ?thesis
    proof (cases "exists w1 path \<and> \<not> f")
      case True
      with m None c1 show ?thesis by (simp add: write_file_def)
    next
      case False
      have "changed {path} w (snd (write_text w1 path c))"
        using c1 write_text_changed by (rule changed_trans)
      with m None False show ?thesis by (auto simp: write_file_def)
    qed
  qed
qed

lemma write_file_exists:
  assumes "write_file w path c f = (None, w')"
  shows "exists w' path"
proof -
  obtain r w1 where m: "mkdir w (parent path) True True = (r, w1)"
    by (cases "mkdir w (parent path) True True")
  with assms have r: "r = None" by (auto simp: write_file_def split: option.splits)
  show ?thesis
  proof (cases "exists w1 path \<and> \<not> f")
    case True
    with assms m r show ?thesis by (simp add: write_file_def)
  next
    case False
    with assms m r have "write_text w1 path c = (None, w')" by (simp add: write_file_def)
    then show ?thesis by (blast intro: read_text_exists write_text_read)
  qed
qed


lemma write_init_changed: "changed {init_file d} w (snd (write_init w d f))"
  using write_text_changed[of "init_file d" w]
  by (simp add: write_init_def init_file_def changed_refl Let_def)

lemma write_init_exists:
  assumes "write_init w d f = (None, w')"
  shows "exists w' (init_file d)"
proof (cases "\<not> exists w (init_file d) \<or> f")
  case True
  with assms have "write_text w (init_file d) ''# Auto-generated __init__.py\<newline>'' = (None, w')"
    by (simp add: write_init_def init_file_def Let_def)
  then show ?thesis by (blast intro: read_text_exists write_text_read)
next
  case False
  with assms show ?thesis by (auto simp: write_init_def init_file_def Let_def)
qed

lemma make_dirs_changed: "changed (init_file ` set ds) w (snd (make_dirs w ds))"
proof (induction ds arbitrary: w)
  case Nil
  show ?case by (simp add: changed_refl)
next
  case (Cons d ds)
  let ?S = "init_file ` set (d # ds)"
  obtain r w1 where m: "mkdir w d True True = (r, w1)" by (cases "mkdir w d True True")
  have c1: "changed ?S w w1"
    using mkdir_changed[of w d True True] m by (auto intro: changed_mono)
  obtain r2 w2 where i: "write_init w1 d False = (r2, w2)" by (cases "write_init w1 d False")
  have "changed ?S w1 w2"
    using write_init_changed[of d w1 False] i by (auto intro: changed_mono)
  with c1 have c2: "changed ?S w w2" by (rule changed_trans)
  have "changed ?S w2 (snd (make_dirs w2 ds))"
    using Cons.IH[of w2] by (auto intro: changed_mono)
  with c2 have c3: "changed ?S w (snd (make_dirs w2 ds))" by (rule changed_trans)
  show ?case
    using m i c1 c2 c3 by (cases r; cases r2) simp_all
qed

lemma make_dirs_post:
  "make_dirs w ds = (None, w') \<Longrightarrow> d \<in> set ds \<Longrightarrow> is_dir w' d \<and> exists w' (init_file d)"
proof (induction ds arbitrary: w)
  case Nil
  then show ?case by simp
next
  case (Cons x ds)
  obtain r w1 where m: "mkdir w x True True = (r, w1)" by (cases "mkdir w x True True")
  obtain r2 w2 where i: "write_init w1 x False = (r2, w2)" by (cases "write_init w1 x False")
  from Cons.prems(1) m i have r: "r = None" "r2 = None" and rest: "make_dirs w2 ds = (None, w')"
    by (auto split: option.splits)
  show ?case
  proof (cases "d = x")
    case True
    have "is_dir w1 x" using m r by (simp add: mkdir_is_dir)
    moreover have e1: "ext w1 w2" using write_init_changed[of x w1 False] i by (auto dest: changed_ext)
    moreover have e2: "ext w2 w'" using make_dirs_changed[of ds w2] rest by (auto dest: changed_ext)
    moreover have "exists w2 (init_file x)" using i r by (simp add: write_init_exists)
    ultimately show ?thesis using True by (blast intro: is_dir_ext exists_ext)
  next
    case False
    with Cons.prems(2) have "d \<in> set ds" by simp
    with Cons.IH[OF rest] show ?thesis by simp
  qed
qed

lemma write_files_changed: "changed (fst ` set xs) w (snd (write_files w xs f))"
proof (induction xs arbitrary: w)
  case Nil
  show ?case by (simp add: changed_refl)
next
  case (Cons x xs)
  obtain path c where x: "x = (path, c)" by (cases x)
  let ?S = "fst ` set (x # xs)"
  obtain r w1 where m: "write_file w path (c w) f = (r, w1)" by (cases "write_file w path (c w) f")
  have c1: "changed ?S w w1"
    using write_file_changed[of path w "c w" f] m x by (auto intro: changed_mono)
  have "changed ?S w1 (snd (write_files w1 xs f))"
    using Cons.IH[of w1] by (auto intro: changed_mono)
  with c1 have c2: "changed ?S w (snd (write_files w1 xs f))" by (rule changed_trans)
  show ?case using m c1 c2 x by (cases r) simp_all
qed

lemma write_files_exists:
  "write_files w xs f = (None, w') \<Longrightarrow> x \<in> set xs \<Longrightarrow> exists w' (fst x)"
proof (induction xs arbitrary: w)
  case Nil
  then show ?case by simp
next
  case (Cons y xs)
  obtain path c where y: "y = (path, c)" by (cases y)
  obtain r w1 where m: "write_file w path (c w) f = (r, w1)" by (cases "write_file w path (c w) f")
  from Cons.prems(1) m y have r: "r = None" and rest: "write_files w1 xs f = (None, w')"
    by (auto split: option.splits)
  show ?case
  proof (cases "x = y")
    case True
    have "exists w1 path" using m r by (simp add: write_file_exists)
    moreover have "ext w1 w'" using write_files_changed[of xs w1 f] rest by (auto dest: changed_ext)
    ultimately show ?thesis using True y by (auto intro: exists_ext)
  next
    case False
    with Cons.prems(2) have "x \<in> set xs" by simp
    with Cons.IH[OF rest] show ?thesis by simp
  qed
qed


subsection \<open>Paths under the root\<close>

lemma dirs_under: "dirs root = map (under root) dir_tails"
  by (simp add: dirs_def dir_tails_def under_def joinpath_def parse_path_def splitroot_def)

lemma artifacts_under: "map fst (artifacts root n) = map (under root) artifact_tails"
  by (simp add: artifacts_def artifact_tails_def under_def joinpath_def parse_path_def splitroot_def)

lemma init_file_under: "init_file (under root rel) = under root (rel @ [''__init__.py''])"
  by (simp add: init_file_def under_def joinpath_def parse_path_def splitroot_def)

lemma under_Nil: "under root [] = root"
  by (simp add: under_def)

lemma resolve_under:
  assumes "''..'' \<notin> set rel" and "resolve w (under root rel) = Inr q"
  shows "\<exists>r. resolve w root = Inr r \<and> q = r @ rel"
proof -
  from assms(2) have nn: "\<not> has_nul (under root rel)"
    and wk: "walk w (start w root) (tail root @ rel) = Inr q"
    by (auto simp: resolve_def under_def start_def split: if_splits)
  from nn have nr: "\<not> has_nul root" by (auto simp: has_nul_def under_def)
  from wk obtain r where r: "walk w (start w root) (tail root) = Inr r" "walk w r rel = Inr q"
    by (auto simp: walk_append split: sum.splits)
  from walk_plain[OF assms(1) r(2)] r(1) nr show ?thesis by (simp add: resolve_def)
qed

lemma apart_under:
  assumes "rel \<noteq> rel'" and "''..'' \<notin> set rel" and "''..'' \<notin> set rel'"
  shows "apart w (under root rel) {under root rel'}"
  unfolding apart_def
proof (intro ballI allI impI notI)
  fix p' q
  assume "p' \<in> {under root rel'}" and a: "resolve w (under root rel) = Inr q"
    and b: "resolve w p' = Inr q"
  then have b': "resolve w (under root rel') = Inr q" by simp
  from resolve_under[OF assms(2) a] resolve_under[OF assms(3) b'] assms(1)
  show False by auto
qed


lemma artifact_tails_ok:
  "distinct artifact_tails" "\<forall>rel\<in>set artifact_tails. ''..'' \<notin> set rel"
  by (simp_all add: artifact_tails_def)



subsection \<open>Printing\<close>

lemma lookup_print [simp]: "lookup (print w l) q = lookup w q"
  by (simp add: lookup_def print_def)

lemma cwd_print [simp]: "cwd (print w l) = cwd w"
  by (simp add: print_def)

lemma entries_print [simp]: "entries (print w l) = entries w"
  by (simp add: print_def)

lemma walk_print [simp]: "walk (print w l) cur ss = walk w cur ss"
  by (induction ss arbitrary: cur) (auto split: option.splits node.splits)

lemma resolve_print [simp]: "resolve (print w l) p = resolve w p"
  by (simp add: resolve_def start_def)

lemma os_stat_print [simp]: "os_stat (print w l) p = os_stat w p"
  by (simp add: os_stat_def split: sum.splits)

lemma exists_print [simp]: "exists (print w l) p = exists w p"
  by (simp add: exists_def)

lemma is_dir_print [simp]: "is_dir (print w l) p = is_dir w p"
  by (simp add: is_dir_def)

lemma read_text_print [simp]: "read_text (print w l) p = read_text w p"
  by (simp add: read_text_def)

lemma os_listdir_print [simp]: "os_listdir (print w l) p = os_listdir w p"
  by (simp add: os_listdir_def split: sum.splits option.splits node.splits)

lemma changed_print: "changed S w w' \<Longrightarrow> changed S w (print w' l)"
  by (simp add: changed_def ext_def)

subsection \<open>The render calls\<close>

lemma make_fixed:
  "make_pyproject u n = make_pyproject v n"
  "make_requirements u = make_requirements v"
  "make_importlinter u = make_importlinter v"
  "make_dockerfile u = make_dockerfile v"
  "make_compose u n = make_compose v n"
  "make_makefile u = make_makefile v"
  "make_gitignore u = make_gitignore v"
  "make_pytest_ini u = make_pytest_ini v"
  "make_ruff_toml u = make_ruff_toml v"
  "make_requirements_tests u = make_requirements_tests v"
  "make_precommit u = make_precommit v"
  "make_env_example u = make_env_example v"
  "make_main u = make_main v"
  "make_dependencies u = make_dependencies v"
  "make_schemas u = make_schemas v"
  "make_sample_endpoint u = make_sample_endpoint v"
  "make_test_health u = make_test_health v"
  "make_config u = make_config v"
  by (simp_all only: make_pyproject_def make_requirements_def make_importlinter_def make_dockerfile_def make_compose_def make_makefile_def
      make_gitignore_def make_pytest_ini_def make_ruff_toml_def make_requirements_tests_def make_precommit_def make_env_example_def
      make_main_def make_dependencies_def make_schemas_def make_sample_endpoint_def make_test_health_def make_config_def)


subsection \<open>The generation as a whole\<close>

lemma generate_cases:
  obtains (dirs_fail) e w1 where "make_dirs w (dirs root) = (Some e, w1)"
      "generate w root n f = (Raised e, w1)"
  | (files_fail) e w1 w2 where "make_dirs w (dirs root) = (None, w1)"
      "write_files w1 (artifacts root n) f = (Some e, w2)"
      "generate w root n f = (Raised e, w2)"
  | (ok) w1 w2 where "make_dirs w (dirs root) = (None, w1)"
      "write_files w1 (artifacts root n) f = (None, w2)"
      "generate w root n f =
         (Returned, print w2 (''[OK] Project generated at: '' @ str_path root))"
proof -
  obtain r1 w1 where a: "make_dirs w (dirs root) = (r1, w1)" by (cases "make_dirs w (dirs root)")
  obtain r2 w2 where b: "write_files w1 (artifacts root n) f = (r2, w2)"
    by (cases "write_files w1 (artifacts root n) f")
  show thesis
  proof (cases r1)
    case (Some e)
    with a show ?thesis by (intro dirs_fail[of e w1]) (simp_all add: generate_def)
  next
    case n1: None
    show ?thesis
    proof (cases r2)
      case (Some e)
      with a b n1 show ?thesis by (intro files_fail[of w1 e w2]) (simp_all add: generate_def)
    next
      case None
      with a b n1 show ?thesis by (intro ok[of w1 w2]) (simp_all add: generate_def)
    qed
  qed
qed

lemma generate_changed: "changed (declared root n) w (snd (generate w root n f))"
proof -
  let ?S = "declared root n"
  have A: "changed ?S w (snd (make_dirs w (dirs root)))"
    using make_dirs_changed[of "dirs root" w] by (auto simp: declared_def intro: changed_mono)
  have B: "changed ?S w1 (snd (write_files w1 (artifacts root n) f))" for w1
    using write_files_changed[of "artifacts root n" w1 f] by (auto simp: declared_def intro: changed_mono)
  show ?thesis
  proof (cases rule: generate_cases[of w root n f])
    case (dirs_fail e w1)
    with A show ?thesis by simp
  next
    case (files_fail e w1 w2)
    with A B[of w1] show ?thesis by (auto intro: changed_trans)
  next
    case (ok w1 w2)
    with A B[of w1] have "changed ?S w w2" by (auto intro: changed_trans)
    with ok show ?thesis by (simp add: changed_print)
  qed
qed

lemma generate_not_exit: "fst (generate w root n f) \<noteq> SysExit k"
  by (cases rule: generate_cases[of w root n f]) simp_all

lemma generate_post:
  assumes "generate w root n f = (Returned, w')"
  shows "(\<forall>d\<in>set (dirs root). is_dir w' d \<and> exists w' (init_file d)) \<and>
         (\<forall>x\<in>set (artifacts root n). exists w' (fst x))"
proof (cases rule: generate_cases[of w root n f])
  case (dirs_fail e w1)
  with assms show ?thesis by simp
next
  case (files_fail e w1 w2)
  with assms show ?thesis by simp
next
  case (ok w1 w2)
  with assms have w': "w' = print w2 (''[OK] Project generated at: '' @ str_path root)" by simp
  have e: "ext w1 w2"
    using write_files_changed[of "artifacts root n" w1 f] ok(2) by (auto dest: changed_ext)
  show ?thesis
    unfolding w' using make_dirs_post[OF ok(1)] write_files_exists[OF ok(2)] e
    by (auto intro: is_dir_ext exists_ext)
qed


subsection \<open>The root guard\<close>

lemma scaffold_cases:
  fixes w p n f
  defines "root \<equiv> project_root p n"
  obtains (listdir_fail) e where "exists w root" "os_listdir w root = Inl e"
      "scaffold w p n f = (Raised e, w)"
  | (guard) "guard_fires w root f"
      "scaffold w p n f =
         (SysExit 1, print w (''[ERROR] Target path already exists and is not empty: '' @ str_path root))"
  | (gen) "\<not> guard_fires w root f" "scaffold w p n f = generate w root n f"
proof (cases "exists w root")
  case False
  then show ?thesis
    by (intro gen) (simp_all add: guard_fires_def scaffold_def root_def project_root_def)
next
  case ex: True
  show ?thesis
  proof (cases "os_listdir w root")
    case (Inl e)
    with ex show ?thesis
      by (intro listdir_fail[of e]) (simp_all add: scaffold_def root_def project_root_def)
  next
    case (Inr names)
    show ?thesis
    proof (cases "names \<noteq> [] \<and> \<not> f")
      case True
      with ex Inr show ?thesis
        by (intro guard) (auto simp: guard_fires_def scaffold_def root_def project_root_def neq_Nil_conv)
    next
      case False
      with ex Inr show ?thesis
        by (intro gen) (auto simp: guard_fires_def scaffold_def root_def project_root_def)
    qed
  qed
qed

subsection \<open>Walking down a well-shaped tree\<close>

lemma file_ok_marker: "file_ok D F rel \<Longrightarrow> marker_ok D F rel"
  by (simp add: file_ok_def marker_ok_def)

lemma plain_append: "plain (a @ b) \<longleftrightarrow> plain a \<and> plain b"
  by (auto simp: plain_def)

lemma plain_butlast: "plain rel \<Longrightarrow> plain (butlast rel)"
  by (auto simp: plain_def dest: in_set_butlastD)

lemma strict_prefix_butlast: "rel \<noteq> [] \<Longrightarrow> strict_prefix (butlast rel) rel"
proof -
  assume "rel \<noteq> []"
  then have "rel = butlast rel @ [last rel]" by simp
  then show ?thesis by (metis strict_prefixI' )
qed

lemma dir_ok_butlast: "dir_ok D F rel \<Longrightarrow> dir_ok D F (butlast rel)"
  unfolding dir_ok_def
  by (meson plain_butlast prefixeq_butlast prefix_order.trans)

lemma dir_ok_Nil: "dir_ok D F []"
  by (simp add: dir_ok_def plain_def)

lemma walk_down:
  "''..'' \<notin> set rel \<Longrightarrow> (\<forall>pre. strict_prefix pre rel \<longrightarrow> lookup w (cur @ pre) = Some Dir) \<Longrightarrow>
   walk w cur rel = Inr (cur @ rel)"
proof (induction rel arbitrary: cur)
  case Nil
  then show ?case by simp
next
  case (Cons s rel)
  have d: "lookup w cur = Some Dir" using Cons.prems(2)[rule_format, of "[]"] by simp
  have "\<forall>pre. strict_prefix pre rel \<longrightarrow> lookup w ((cur @ [s]) @ pre) = Some Dir"
  proof (intro allI impI)
    fix pre assume "strict_prefix pre rel"
    then have "strict_prefix (s # pre) (s # rel)" by (auto simp: strict_prefix_def)
    with Cons.prems(2) show "lookup w ((cur @ [s]) @ pre) = Some Dir" by fastforce
  qed
  with Cons.IH[of "cur @ [s]"] Cons.prems(1) have "walk w (cur @ [s]) rel = Inr (cur @ s # rel)"
    by simp
  moreover have "s \<noteq> ''..''" using Cons.prems(1) by auto
  ultimately show ?case using d by simp
qed

lemma walk_or_missing:
  "''..'' \<notin> set rel \<Longrightarrow> (\<forall>pre c. strict_prefix pre rel \<longrightarrow> lookup w (cur @ pre) \<noteq> Some (File c)) \<Longrightarrow>
   walk w cur rel = Inr (cur @ rel) \<or> walk w cur rel = Inl FileNotFoundError"
proof (induction rel arbitrary: cur)
  case Nil
  then show ?case by simp
next
  case (Cons s rel)
  have nf: "lookup w cur \<noteq> Some (File c)" for c
    using Cons.prems(2)[rule_format, of "[]"] by simp
  have "\<forall>pre c. strict_prefix pre rel \<longrightarrow> lookup w ((cur @ [s]) @ pre) \<noteq> Some (File c)"
  proof (intro allI impI)
    fix pre c assume "strict_prefix pre rel"
    then have "strict_prefix (s # pre) (s # rel)" by (auto simp: strict_prefix_def)
    with Cons.prems(2) show "lookup w ((cur @ [s]) @ pre) \<noteq> Some (File c)" by fastforce
  qed
  with Cons.IH[of "cur @ [s]"] Cons.prems(1)
  have r: "walk w (cur @ [s]) rel = Inr (cur @ s # rel) \<or> walk w (cur @ [s]) rel = Inl FileNotFoundError"
    by simp
  have ns: "s \<noteq> ''..''" using Cons.prems(1) by auto
  show ?case
  proof (cases "lookup w cur")
    case None
    then show ?thesis by simp
  next
    case (Some n)
    with nf have "n = Dir" by (cases n) auto
    with Some r ns show ?thesis by simp
  qed
qed

lemma shape_parent:
  "shape D F w r \<Longrightarrow> rel \<noteq> [] \<Longrightarrow> lookup w (r @ rel) \<noteq> None \<Longrightarrow>
   lookup w (r @ butlast rel) = Some Dir"
proof -
  assume s: "shape D F w r" and ne: "rel \<noteq> []" and l: "lookup w (r @ rel) \<noteq> None"
  from l obtain n where n: "lookup w (r @ rel) = Some n" by auto
  from s ne have "case lookup w (r @ rel) of
           None \<Rightarrow> True
         | Some Dir \<Rightarrow> rel \<in> D \<and> lookup w (r @ butlast rel) = Some Dir
         | Some (File c) \<Rightarrow> rel \<in> F \<and> lookup w (r @ butlast rel) = Some Dir"
    unfolding shape_def by blast
  with n show ?thesis by (cases n) simp_all
qed

lemma shape_chain:
  "shape D F w r \<Longrightarrow> lookup w (r @ rel) \<noteq> None \<Longrightarrow> strict_prefix pre rel \<Longrightarrow>
   lookup w (r @ pre) = Some Dir"
proof (induction rel arbitrary: pre rule: rev_induct)
  case Nil
  then show ?case by simp
next
  case (snoc x xs)
  from shape_parent[OF snoc.prems(1), of "xs @ [x]"] snoc.prems(2)
  have p: "lookup w (r @ xs) = Some Dir" by simp
  from snoc.prems(3) have "prefix pre xs" by (auto simp: strict_prefix_def)
  then consider "pre = xs" | "strict_prefix pre xs" by (auto simp: strict_prefix_def)
  then show ?case
  proof cases
    case 1
    with p show ?thesis by simp
  next
    case 2
    with snoc.IH[OF snoc.prems(1) _ 2] p show ?thesis by simp
  qed
qed

lemma has_nul_under: "has_nul (under root rel) \<longleftrightarrow> has_nul root \<or> (\<exists>s\<in>set rel. CHR 0x00 \<in> set s)"
  by (auto simp: has_nul_def under_def list_ex_iff)

lemma start_under [simp]: "start w (under root rel) = start w root"
  by (simp add: start_def under_def)

lemma tail_under [simp]: "tail (under root rel) = tail root @ rel"
  by (simp add: under_def)

lemma resolve_root_walk:
  "resolve w root = Inr r \<Longrightarrow> walk w (start w root) (tail root @ rel) = walk w r rel"
  by (auto simp: resolve_def walk_append split: if_splits)

lemma resolve_under_down:
  assumes "\<not> has_nul root" and "resolve w root = Inr r" and "plain rel"
    and "\<forall>pre. strict_prefix pre rel \<longrightarrow> lookup w (r @ pre) = Some Dir"
  shows "resolve w (under root rel) = Inr (r @ rel)"
proof -
  have "\<not> has_nul (under root rel)" using assms(1,3) by (auto simp: has_nul_under plain_def)
  moreover have "walk w r rel = Inr (r @ rel)"
    using walk_down[of rel w r] assms(3,4) by (simp add: plain_def)
  ultimately show ?thesis
    using resolve_root_walk[OF assms(2), of rel] by (simp add: resolve_def)
qed

lemma is_dir_under:
  assumes "\<not> has_nul root" and "resolve w root = Inr r" and "plain rel"
    and "shape D F w r" and "lookup w (r @ rel) = Some Dir"
  shows "is_dir w (under root rel)"
proof -
  have "\<forall>pre. strict_prefix pre rel \<longrightarrow> lookup w (r @ pre) = Some Dir"
    using shape_chain[OF assms(4), of rel] assms(5) by simp
  from resolve_under_down[OF assms(1,2,3) this] assms(5) show ?thesis
    by (auto simp: is_dir_iff)
qed

lemma os_mkdir_existing:
  assumes "is_dir w p"
  shows "os_mkdir w p = Inl FileExistsError"
proof -
  from assms obtain q where q: "resolve w p = Inr q" "lookup w q = Some Dir"
    by (auto simp: is_dir_iff)
  then have nn: "\<not> has_nul p" and wk: "walk w (start w p) (tail p) = Inr q"
    by (auto simp: resolve_def split: if_splits)
  show ?thesis
  proof (cases "tail p = []")
    case True
    with nn show ?thesis by (simp add: os_mkdir_def)
  next
    case False
    then have t: "tail p = butlast (tail p) @ [last (tail p)]" by simp
    from wk have "walk w (start w p) (butlast (tail p) @ [last (tail p)]) = Inr q"
      using t by simp
    then obtain d where d: "walk w (start w p) (butlast (tail p)) = Inr d"
      and st: "walk w d [last (tail p)] = Inr q"
      by (auto simp: walk_append split: sum.splits)
    from st have ld: "lookup w d = Some Dir"
      by (auto split: option.splits node.splits)
    show ?thesis
    proof (cases "last (tail p) = ''..''")
      case True
      with nn False d ld show ?thesis by (simp add: os_mkdir_def)
    next
      case nd: False
      with st ld have "q = d @ [last (tail p)]" by simp
      with q(2) nn False d ld nd show ?thesis by (simp add: os_mkdir_def)
    qed
  qed
qed

lemma mkdir_existing: "is_dir w p \<Longrightarrow> mkdir w p a True = (None, w)"
  using os_mkdir_existing[of w p] by (simp add: mkdir_other)

lemma os_mkdir_create:
  assumes "\<not> has_nul root" and "resolve w root = Inr r" and "plain rel" and "rel \<noteq> []"
    and "\<forall>pre. strict_prefix pre rel \<longrightarrow> lookup w (r @ pre) = Some Dir"
    and "lookup w (r @ rel) = None"
  shows "os_mkdir w (under root rel) = Inr (w\<lparr>entries := (r @ rel, Dir) # entries w\<rparr>)"
proof -
  let ?p = "under root rel"
  have nn: "\<not> has_nul ?p" using assms(1,3) by (auto simp: has_nul_under plain_def)
  have ne: "tail ?p \<noteq> []" using assms(4) by simp
  have bl: "butlast (tail ?p) = tail root @ butlast rel" "last (tail ?p) = last rel"
    using assms(4) by (simp_all add: butlast_append)
  have pb: "''..'' \<notin> set (butlast rel)" using assms(3) by (auto simp: plain_def dest: in_set_butlastD)
  have sb: "strict_prefix (butlast rel) rel" using assms(4) by (rule strict_prefix_butlast)
  have "\<forall>pre. strict_prefix pre (butlast rel) \<longrightarrow> lookup w (r @ pre) = Some Dir"
    using assms(5) sb by (meson prefix_order.strict_trans)
  from walk_down[OF pb this]
  have wk: "walk w (start w ?p) (butlast (tail ?p)) = Inr (r @ butlast rel)"
    using resolve_root_walk[OF assms(2), of "butlast rel"] bl by simp
  from assms(5) sb have ld: "lookup w (r @ butlast rel) = Some Dir" by simp
  have "last rel \<in> set rel" using assms(4) by simp
  then have lr: "last rel \<noteq> ''..''" using assms(3) unfolding plain_def by metis
  have e: "(r @ butlast rel) @ [last rel] = r @ rel" using assms(4) by simp
  have "os_mkdir w ?p = Inr (w\<lparr>entries := ((r @ butlast rel) @ [last (tail ?p)], Dir) # entries w\<rparr>)"
    unfolding os_mkdir_def using nn ne wk ld lr assms(6) bl(2) e by simp
  then show ?thesis using bl(2) e by simp
qed

subsection \<open>Making directories on a usable destination\<close>

lemma lookup_cons_Dir:
  "lookup (w\<lparr>entries := (k, Dir) # entries w\<rparr>) q = (if q = k then Some Dir else lookup w q)"
  by (simp add: lookup_def)

lemma lookup_update_File:
  "k \<noteq> [] \<Longrightarrow>
   lookup (w\<lparr>entries := AList.update k (File c) (entries w)\<rparr>) q =
     (if q = k then Some (File c) else lookup w q)"
  by (simp add: lookup_def update_conv')

lemma usable_points:
  assumes u: "usable D F w root r"
    and c: "cwd w' = cwd w"
    and l: "\<And>q. lookup w' q = (if q = r @ rel then Some n else lookup w q)"
    and k: "lookup w (r @ rel) = None \<or> (n \<noteq> Dir \<and> (\<exists>c. lookup w (r @ rel) = Some (File c)))"
    and p: "rel = [] \<and> n = Dir \<or>
            rel \<noteq> [] \<and> lookup w (r @ butlast rel) = Some Dir \<and>
              (case n of Dir \<Rightarrow> rel \<in> D | File c \<Rightarrow> rel \<in> F)"
  shows "usable D F w' root r"
proof -
  have keep: "lookup w q = Some Dir \<Longrightarrow> lookup w' q = Some Dir" for q
    using k l by auto
  have e: "ext w w'"
    unfolding ext_def using c k l by auto
  have nn: "\<not> has_nul root" and rs: "resolve w root = Inr r" and sh: "shape D F w r"
    and rt: "lookup w r = Some Dir \<or> (lookup w r = None \<and> tail root \<noteq> [] \<and> last (tail root) \<noteq> ''..'')"
    using u by (auto simp: usable_def)
  have rs': "resolve w' root = Inr r" using resolve_ext[OF e rs] .
  have rt': "lookup w' r = Some Dir \<or> (lookup w' r = None \<and> tail root \<noteq> [] \<and> last (tail root) \<noteq> ''..'')"
    using rt p l by auto
  have sh': "shape D F w' r"
    unfolding shape_def
  proof (intro allI impI)
    fix rel' :: "string list"
    assume ne: "rel' \<noteq> []"
    show "case lookup w' (r @ rel') of None \<Rightarrow> True
          | Some Dir \<Rightarrow> rel' \<in> D \<and> lookup w' (r @ butlast rel') = Some Dir
          | Some (File c) \<Rightarrow> rel' \<in> F \<and> lookup w' (r @ butlast rel') = Some Dir"
    proof (cases "rel' = rel")
      case True
      with ne p have pd: "lookup w (r @ butlast rel) = Some Dir"
        and m: "case n of Dir \<Rightarrow> rel \<in> D | File c \<Rightarrow> rel \<in> F" by auto
      from pd have "lookup w' (r @ butlast rel) = Some Dir" by (rule keep)
      with m True l[of "r @ rel"] show ?thesis by (cases n) simp_all
    next
      case False
      then have eq: "lookup w' (r @ rel') = lookup w (r @ rel')" using l by simp
      from sh ne have old: "case lookup w (r @ rel') of None \<Rightarrow> True
          | Some Dir \<Rightarrow> rel' \<in> D \<and> lookup w (r @ butlast rel') = Some Dir
          | Some (File c) \<Rightarrow> rel' \<in> F \<and> lookup w (r @ butlast rel') = Some Dir"
        unfolding shape_def by blast
      show ?thesis
      proof (cases "lookup w (r @ rel')")
        case None
        with eq show ?thesis by simp
      next
        case (Some m)
        with old have "lookup w (r @ butlast rel') = Some Dir" by (cases m) simp_all
        then have "lookup w' (r @ butlast rel') = Some Dir" by (rule keep)
        with old Some eq show ?thesis by (cases m) simp_all
      qed
    qed
  qed
  from nn rs' rt' sh' show ?thesis by (simp add: usable_def)
qed

lemma usable_add_dir:
  assumes "usable D F w root r" and "lookup w (r @ rel) = None"
    and "rel = [] \<or> rel \<in> D \<and> lookup w (r @ butlast rel) = Some Dir"
  shows "usable D F (w\<lparr>entries := (r @ rel, Dir) # entries w\<rparr>) root r"
proof (rule usable_points[OF assms(1), where rel = rel and n = Dir])
  show "cwd (w\<lparr>entries := (r @ rel, Dir) # entries w\<rparr>) = cwd w" by simp
  show "lookup (w\<lparr>entries := (r @ rel, Dir) # entries w\<rparr>) q =
        (if q = r @ rel then Some Dir else lookup w q)" for q
    by (rule lookup_cons_Dir)
  show "lookup w (r @ rel) = None \<or> Dir \<noteq> Dir \<and> (\<exists>c. lookup w (r @ rel) = Some (File c))"
    using assms(2) by simp
  show "rel = [] \<and> Dir = Dir \<or>
        rel \<noteq> [] \<and> lookup w (r @ butlast rel) = Some Dir \<and>
          (case Dir of Dir \<Rightarrow> rel \<in> D | File c \<Rightarrow> rel \<in> F)"
    using assms(3) by auto
qed

lemma usable_add_file:
  assumes "usable D F w root r" and "rel \<noteq> []" and "rel \<in> F"
    and "lookup w (r @ butlast rel) = Some Dir" and "lookup w (r @ rel) \<noteq> Some Dir"
  shows "usable D F (w\<lparr>entries := AList.update (r @ rel) (File c) (entries w)\<rparr>) root r"
proof (rule usable_points[OF assms(1), where rel = rel and n = "File c"])
  show "cwd (w\<lparr>entries := AList.update (r @ rel) (File c) (entries w)\<rparr>) = cwd w" by simp
  show "lookup (w\<lparr>entries := AList.update (r @ rel) (File c) (entries w)\<rparr>) q =
        (if q = r @ rel then Some (File c) else lookup w q)" for q
    using assms(2) by (simp add: lookup_update_File)
  show "lookup w (r @ rel) = None \<or> File c \<noteq> Dir \<and> (\<exists>c. lookup w (r @ rel) = Some (File c))"
    using assms(5) by (cases "lookup w (r @ rel)") (auto intro: node.exhaust)
  show "rel = [] \<and> File c = Dir \<or>
        rel \<noteq> [] \<and> lookup w (r @ butlast rel) = Some Dir \<and>
          (case File c of Dir \<Rightarrow> rel \<in> D | File c \<Rightarrow> rel \<in> F)"
    using assms(2,3,4) by simp
qed

lemma usable_root_kind:
  "usable D F w root r \<Longrightarrow> lookup w r \<noteq> Some (File c)"
  by (auto simp: usable_def)

lemma usable_not_file:
  assumes "usable D F w root r" and "dir_ok D F rel" and "prefix pre rel"
  shows "lookup w (r @ pre) \<noteq> Some (File c)"
proof (cases "pre = []")
  case True
  with usable_root_kind[OF assms(1)] show ?thesis by simp
next
  case False
  with assms(2,3) have nf: "pre \<notin> F" by (auto simp: dir_ok_def)
  from assms(1) have "shape D F w r" by (simp add: usable_def)
  with False have "case lookup w (r @ pre) of None \<Rightarrow> True
          | Some Dir \<Rightarrow> pre \<in> D \<and> lookup w (r @ butlast pre) = Some Dir
          | Some (File c) \<Rightarrow> pre \<in> F \<and> lookup w (r @ butlast pre) = Some Dir"
    unfolding shape_def by blast
  with nf show ?thesis by (auto split: option.splits node.splits)
qed

lemma usable_not_dir:
  assumes "usable D F w root r" and "rel \<noteq> []" and "rel \<notin> D"
  shows "lookup w (r @ rel) \<noteq> Some Dir"
proof -
  from assms(1) have "shape D F w r" by (simp add: usable_def)
  with assms(2) have "case lookup w (r @ rel) of None \<Rightarrow> True
          | Some Dir \<Rightarrow> rel \<in> D \<and> lookup w (r @ butlast rel) = Some Dir
          | Some (File c) \<Rightarrow> rel \<in> F \<and> lookup w (r @ butlast rel) = Some Dir"
    unfolding shape_def by blast
  with assms(3) show ?thesis by (auto split: option.splits node.splits)
qed

lemma usable_prefixes:
  assumes "usable D F w root r" and "lookup w (r @ rel) = Some Dir"
  shows "\<forall>pre. strict_prefix pre rel \<longrightarrow> lookup w (r @ pre) = Some Dir"
  using assms shape_chain[of D F w r rel] by (auto simp: usable_def)

lemma os_mkdir_root:
  assumes "usable D F w root r" and "lookup w r = None"
  shows "os_mkdir w root = Inr (w\<lparr>entries := (r, Dir) # entries w\<rparr>)"
proof -
  from assms have nn: "\<not> has_nul root" and rs: "resolve w root = Inr r"
    and ne: "tail root \<noteq> []" and nd: "last (tail root) \<noteq> ''..''"
    by (auto simp: usable_def)
  from rs nn have "walk w (start w root) (butlast (tail root) @ [last (tail root)]) = Inr r"
    using ne by (simp add: resolve_def)
  then obtain d where d: "walk w (start w root) (butlast (tail root)) = Inr d"
    and st: "walk w d [last (tail root)] = Inr r"
    by (auto simp: walk_append split: sum.splits)
  from st have ld: "lookup w d = Some Dir" by (auto split: option.splits node.splits)
  with st nd have r: "r = d @ [last (tail root)]" by simp
  show ?thesis
    unfolding os_mkdir_def using nn ne d ld nd assms(2) r by simp
qed

lemma os_mkdir_missing:
  assumes "usable D F w root r" and "dir_ok D F (xs @ [x])" and "lookup w (r @ xs) = None"
  shows "os_mkdir w (under root (xs @ [x])) = Inl FileNotFoundError"
proof -
  let ?p = "under root (xs @ [x])"
  from assms(1) have nr: "\<not> has_nul root" and rs: "resolve w root = Inr r"
    by (auto simp: usable_def)
  from assms(2) have pl: "plain (xs @ [x])" by (simp add: dir_ok_def)
  have nn: "\<not> has_nul ?p" using nr pl by (auto simp: has_nul_under plain_def)
  have ne: "tail ?p \<noteq> []" by simp
  have bl: "butlast (tail ?p) = tail root @ xs" by (simp add: butlast_append)
  have nd: "''..'' \<notin> set xs" using pl by (auto simp: plain_def)
  have "\<forall>pre c. strict_prefix pre xs \<longrightarrow> lookup w (r @ pre) \<noteq> Some (File c)"
  proof (intro allI impI)
    fix pre c assume "strict_prefix pre xs"
    then have "prefix pre (xs @ [x])" by (auto simp: strict_prefix_def)
    from usable_not_file[OF assms(1,2) this] show "lookup w (r @ pre) \<noteq> Some (File c)" .
  qed
  from walk_or_missing[OF nd this]
  have "walk w r xs = Inr (r @ xs) \<or> walk w r xs = Inl FileNotFoundError" .
  then have "walk w (start w ?p) (butlast (tail ?p)) = Inr (r @ xs) \<or>
             walk w (start w ?p) (butlast (tail ?p)) = Inl FileNotFoundError"
    using resolve_root_walk[OF rs, of xs] bl by simp
  then show ?thesis
    unfolding os_mkdir_def using nn ne assms(3) by auto
qed

lemma mkdir_step:
  assumes u: "usable D F w root r" and ok: "dir_ok D F (xs @ [x])"
    and par: "lookup w (r @ xs) = Some Dir"
  shows "\<exists>w'. mkdir w (under root (xs @ [x])) a True = (None, w') \<and> usable D F w' root r \<and>
              lookup w' (r @ xs @ [x]) = Some Dir"
proof -
  let ?rel = "xs @ [x]"
  from u have nr: "\<not> has_nul root" and rs: "resolve w root = Inr r" and sh: "shape D F w r"
    by (auto simp: usable_def)
  from ok have pl: "plain ?rel" and inD: "?rel \<in> D" by (auto simp: dir_ok_def)
  show ?thesis
  proof (cases "lookup w (r @ ?rel)")
    case None
    have pre: "\<forall>pre. strict_prefix pre ?rel \<longrightarrow> lookup w (r @ pre) = Some Dir"
    proof (intro allI impI)
      fix pre assume "strict_prefix pre ?rel"
      then have "prefix pre xs" by (auto simp: strict_prefix_def)
      then consider "pre = xs" | "strict_prefix pre xs" by (auto simp: strict_prefix_def)
      then show "lookup w (r @ pre) = Some Dir"
      proof cases
        case 1
        with par show ?thesis by simp
      next
        case 2
        with usable_prefixes[OF u par] show ?thesis by simp
      qed
    qed
    have "os_mkdir w (under root ?rel) = Inr (w\<lparr>entries := (r @ ?rel, Dir) # entries w\<rparr>)"
      using os_mkdir_create[OF nr rs pl _ pre None] by simp
    then have "mkdir w (under root ?rel) a True = (None, w\<lparr>entries := (r @ ?rel, Dir) # entries w\<rparr>)"
      by (rule mkdir_Inr)
    moreover have "usable D F (w\<lparr>entries := (r @ ?rel, Dir) # entries w\<rparr>) root r"
      using usable_add_dir[OF u None] inD par by simp
    moreover have "lookup (w\<lparr>entries := (r @ ?rel, Dir) # entries w\<rparr>) (r @ ?rel) = Some Dir"
      by (simp add: lookup_cons_Dir)
    ultimately show ?thesis by auto
  next
    case (Some n)
    have "lookup w (r @ ?rel) \<noteq> Some (File c)" for c
      using usable_not_file[OF u ok, of ?rel] by simp
    with Some have d: "lookup w (r @ ?rel) = Some Dir" by (cases n) auto
    have "is_dir w (under root ?rel)" using is_dir_under[OF nr rs pl sh d] .
    then have "mkdir w (under root ?rel) a True = (None, w)" by (rule mkdir_existing)
    with u d show ?thesis by auto
  qed
qed

lemma parent_under: "rel \<noteq> [] \<Longrightarrow> parent (under root rel) = under root (butlast rel)"
  by (simp add: parent_def under_def butlast_append)

lemma under_inject: "under root a = under root b \<longleftrightarrow> a = b"
  by (simp add: under_def)

lemma mkdir_under:
  "usable D F w root r \<Longrightarrow> dir_ok D F rel \<Longrightarrow>
   \<exists>w'. mkdir w (under root rel) True True = (None, w') \<and> usable D F w' root r \<and>
        lookup w' (r @ rel) = Some Dir"
proof (induction rel arbitrary: w rule: rev_induct)
  case Nil
  note u = Nil.prems(1)
  show ?case
  proof (cases "lookup w r")
    case None
    have "os_mkdir w root = Inr (w\<lparr>entries := (r, Dir) # entries w\<rparr>)"
      using os_mkdir_root[OF u None] .
    then have "mkdir w root True True = (None, w\<lparr>entries := (r, Dir) # entries w\<rparr>)"
      by (rule mkdir_Inr)
    moreover have "usable D F (w\<lparr>entries := (r @ [], Dir) # entries w\<rparr>) root r"
      by (rule usable_add_dir[OF u]) (use None in simp_all)
    moreover have "lookup (w\<lparr>entries := (r, Dir) # entries w\<rparr>) r = Some Dir"
      by (simp add: lookup_cons_Dir)
    ultimately show ?thesis by (auto simp: under_Nil)
  next
    case (Some n)
    with usable_root_kind[OF u] have d: "lookup w r = Some Dir" by (cases n) auto
    with u have "is_dir w root" by (auto simp: usable_def is_dir_iff)
    then have "mkdir w root True True = (None, w)" by (rule mkdir_existing)
    with u d show ?thesis by (auto simp: under_Nil)
  qed
next
  case (snoc x xs)
  note u = snoc.prems(1) and ok = snoc.prems(2)
  have okp: "dir_ok D F xs" using dir_ok_butlast[OF ok] by simp
  show ?case
  proof (cases "lookup w (r @ xs)")
    case (Some n)
    have "lookup w (r @ xs) \<noteq> Some (File c)" for c
      using usable_not_file[OF u ok, of xs] by simp
    with Some have "lookup w (r @ xs) = Some Dir" by (cases n) auto
    from mkdir_step[OF u ok this] show ?thesis by simp
  next
    case None
    have fnf: "os_mkdir w (under root (xs @ [x])) = Inl FileNotFoundError"
      using os_mkdir_missing[OF u ok None] .
    have pne: "parent (under root (xs @ [x])) \<noteq> under root (xs @ [x])"
      by (simp add: parent_under under_inject)
    from snoc.IH[OF u okp] obtain w1 where
      m1: "mkdir w (under root xs) True True = (None, w1)" and u1: "usable D F w1 root r"
      and d1: "lookup w1 (r @ xs) = Some Dir" by blast
    from mkdir_step[OF u1 ok d1, of False] obtain w2 where
      m2: "mkdir w1 (under root (xs @ [x])) False True = (None, w2)" and u2: "usable D F w2 root r"
      and d2: "lookup w2 (r @ xs @ [x]) = Some Dir" by blast
    have "mkdir w (under root (xs @ [x])) True True = (None, w2)"
      using mkdir_rec[OF fnf pne, of True] m1 m2 by (simp add: parent_under)
    with u2 d2 show ?thesis by simp
  qed
qed

subsection \<open>Writing files on a usable destination\<close>

lemma os_write_under:
  assumes u: "usable D F w root r" and ok: "marker_ok D F rel"
    and par: "lookup w (r @ butlast rel) = Some Dir"
    and nd: "lookup w (r @ rel) \<noteq> Some Dir"
  shows "os_write w (under root rel) c =
           Inr (w\<lparr>entries := AList.update (r @ rel) (File c) (entries w)\<rparr>)"
proof -
  let ?p = "under root rel"
  from u have nr: "\<not> has_nul root" and rs: "resolve w root = Inr r"
    by (auto simp: usable_def)
  from ok have ne: "rel \<noteq> []" and pl: "plain rel"
    by (auto simp: marker_ok_def)
  have nn: "\<not> has_nul ?p" using nr pl by (auto simp: has_nul_under plain_def)
  have tne: "tail ?p \<noteq> []" using ne by simp
  have bl: "butlast (tail ?p) = tail root @ butlast rel" "last (tail ?p) = last rel"
    using ne by (simp_all add: butlast_append)
  have pb: "''..'' \<notin> set (butlast rel)" using pl by (auto simp: plain_def dest: in_set_butlastD)
  from walk_down[OF pb usable_prefixes[OF u par]]
  have wk: "walk w (start w ?p) (butlast (tail ?p)) = Inr (r @ butlast rel)"
    using resolve_root_walk[OF rs, of "butlast rel"] bl by simp
  have "last rel \<in> set rel" using ne by simp
  then have lr: "last rel \<noteq> ''..''" using pl unfolding plain_def by metis
  have e: "(r @ butlast rel) @ [last rel] = r @ rel" using ne by simp
  have "os_write w ?p c =
        Inr (w\<lparr>entries := AList.update ((r @ butlast rel) @ [last (tail ?p)]) (File c) (entries w)\<rparr>)"
    unfolding os_write_def using nn tne wk par lr nd bl(2) e by simp
  then show ?thesis using bl(2) e by simp
qed

lemma write_text_under:
  assumes u: "usable D F w root r" and ok: "marker_ok D F rel"
    and par: "lookup w (r @ butlast rel) = Some Dir"
    and nd: "lookup w (r @ rel) \<noteq> Some Dir"
  shows "\<exists>w'. write_text w (under root rel) c = (None, w') \<and> usable D F w' root r \<and>
              lookup w' (r @ rel) = Some (File c) \<and>
              (\<forall>q. q \<noteq> r @ rel \<longrightarrow> lookup w' q = lookup w q)"
proof -
  let ?w' = "w\<lparr>entries := AList.update (r @ rel) (File c) (entries w)\<rparr>"
  from ok have ne: "rel \<noteq> []" and inF: "rel \<in> F"
    by (auto simp: marker_ok_def)
  have "write_text w (under root rel) c = (None, ?w')"
    using os_write_under[OF u ok par nd] by (simp add: write_text_def)
  moreover have "usable D F ?w' root r"
    using usable_add_file[OF u ne inF par nd] .
  moreover have "lookup ?w' q = (if q = r @ rel then Some (File c) else lookup w q)" for q
    using ne by (simp add: lookup_update_File)
  ultimately show ?thesis by auto
qed

lemma exists_under:
  assumes u: "usable D F w root r" and pl: "plain rel"
    and par: "rel = [] \<or> lookup w (r @ butlast rel) = Some Dir"
  shows "exists w (under root rel) \<longleftrightarrow> lookup w (r @ rel) \<noteq> None"
proof -
  from u have nr: "\<not> has_nul root" and rs: "resolve w root = Inr r"
    by (auto simp: usable_def)
  have pre: "\<forall>pre. strict_prefix pre rel \<longrightarrow> lookup w (r @ pre) = Some Dir"
  proof (cases "rel = []")
    case True
    then show ?thesis by simp
  next
    case False
    with par have p: "lookup w (r @ butlast rel) = Some Dir" by simp
    show ?thesis
    proof (intro allI impI)
      fix pre assume "strict_prefix pre rel"
      then have "prefix pre (butlast rel)"
        using False by (metis append_butlast_last_id prefix_snoc strict_prefix_def)
      then consider "pre = butlast rel" | "strict_prefix pre (butlast rel)"
        by (auto simp: strict_prefix_def)
      then show "lookup w (r @ pre) = Some Dir"
      proof cases
        case 1
        with p show ?thesis by simp
      next
        case 2
        with usable_prefixes[OF u p] show ?thesis by simp
      qed
    qed
  qed
  from resolve_under_down[OF nr rs pl pre] show ?thesis
    by (auto simp: exists_iff)
qed

lemma write_file_under:
  assumes u: "usable D F w root r" and ok: "file_ok D F rel"
  shows "\<exists>w'. write_file w (under root rel) c f = (None, w') \<and> usable D F w' root r"
proof -
  from ok have ne: "rel \<noteq> []" and okp: "dir_ok D F (butlast rel)" and pl: "plain rel"
    by (auto simp: file_ok_def)
  from mkdir_under[OF u okp] obtain w1 where
    m1: "mkdir w (under root (butlast rel)) True True = (None, w1)"
    and u1: "usable D F w1 root r" and d1: "lookup w1 (r @ butlast rel) = Some Dir"
    by blast
  show ?thesis
  proof (cases "exists w1 (under root rel) \<and> \<not> f")
    case True
    with m1 u1 ne show ?thesis by (auto simp: write_file_def parent_under)
  next
    case False
    from ok have nD: "rel \<notin> D" by (simp add: file_ok_def)
    from write_text_under[OF u1 file_ok_marker[OF ok] d1 usable_not_dir[OF u1 ne nD], of c]
    obtain w2 where
      "write_text w1 (under root rel) c = (None, w2)" "usable D F w2 root r" by blast
    with m1 False ne show ?thesis by (auto simp: write_file_def parent_under)
  qed
qed

lemma write_init_under:
  assumes u: "usable D F w root r" and ok: "marker_ok D F (d @ [''__init__.py''])"
    and par: "lookup w (r @ d) = Some Dir"
  shows "\<exists>w'. write_init w (under root d) False = (None, w') \<and> usable D F w' root r"
proof (cases "exists w (under root (d @ [''__init__.py'']))")
  case False
  from ok have pl: "plain (d @ [''__init__.py''])" by (simp add: marker_ok_def)
  have "exists w (under root (d @ [''__init__.py''])) \<longleftrightarrow>
        lookup w (r @ d @ [''__init__.py'']) \<noteq> None"
    using exists_under[OF u pl] par by simp
  with False have nd: "lookup w (r @ d @ [''__init__.py'']) \<noteq> Some Dir" by simp
  from write_text_under[OF u ok, of "''# Auto-generated __init__.py\<newline>''"] par nd obtain w'
    where "write_text w (under root (d @ [''__init__.py''])) ''# Auto-generated __init__.py\<newline>'' = (None, w')"
      "usable D F w' root r" by auto
  with False show ?thesis
    using init_file_under[of root d] by (auto simp: write_init_def init_file_def Let_def)
next
  case True
  with u show ?thesis
    using init_file_under[of root d] by (auto simp: write_init_def init_file_def Let_def)
qed

lemma make_dirs_under:
  "usable D F w root r \<Longrightarrow>
   (\<forall>d\<in>set ds. dir_ok D F d \<and> marker_ok D F (d @ [''__init__.py''])) \<Longrightarrow>
   \<exists>w'. make_dirs w (map (under root) ds) = (None, w') \<and> usable D F w' root r"
proof (induction ds arbitrary: w)
  case Nil
  then show ?case by simp
next
  case (Cons d ds)
  from Cons.prems(2) have okd: "dir_ok D F d" and okf: "marker_ok D F (d @ [''__init__.py''])"
    by auto
  from mkdir_under[OF Cons.prems(1) okd] obtain w1 where
    m1: "mkdir w (under root d) True True = (None, w1)"
    and u1: "usable D F w1 root r" and d1: "lookup w1 (r @ d) = Some Dir" by blast
  from write_init_under[OF u1 okf d1] obtain w2 where
    i2: "write_init w1 (under root d) False = (None, w2)" and u2: "usable D F w2 root r" by blast
  from Cons.IH[OF u2] Cons.prems(2) obtain w3 where
    "make_dirs w2 (map (under root) ds) = (None, w3)" "usable D F w3 root r" by auto
  with m1 i2 show ?case by auto
qed

lemma write_files_under:
  "usable D F w root r \<Longrightarrow>
   (\<forall>x\<in>set xs. \<exists>rel. fst x = under root rel \<and> file_ok D F rel) \<Longrightarrow>
   \<exists>w'. write_files w xs f = (None, w') \<and> usable D F w' root r"
proof (induction xs arbitrary: w)
  case Nil
  then show ?case by simp
next
  case (Cons x xs)
  obtain path c where x: "x = (path, c)" by (cases x)
  from Cons.prems(2) x obtain rel where rel: "path = under root rel" "file_ok D F rel" by auto
  from write_file_under[OF Cons.prems(1) rel(2), of "c w" f] obtain w1 where
    m1: "write_file w path (c w) f = (None, w1)" and u1: "usable D F w1 root r"
    using rel(1) by blast
  from Cons.IH[OF u1] Cons.prems(2) obtain w2 where
    "write_files w1 xs f = (None, w2)" "usable D F w2 root r" by auto
  with m1 x show ?case by auto
qed

lemma shape_print [simp]: "shape D F (print w l) r = shape D F w r"
  by (simp add: shape_def cong: option.case_cong node.case_cong)

lemma usable_print [simp]: "usable D F (print w l) root r = usable D F w root r"
  by (simp add: usable_def)

lemma generate_under:
  assumes u: "usable D F w root r" and ft: "fits D F"
  shows "\<exists>w'. generate w root n f = (Returned, w') \<and> usable D F w' root r"
proof -
  from make_dirs_under[OF u, of dir_tails] ft obtain w1 where
    m1: "make_dirs w (dirs root) = (None, w1)" and u1: "usable D F w1 root r"
    by (auto simp: fits_def dirs_under)
  have "\<forall>x\<in>set (artifacts root n). \<exists>rel. fst x = under root rel \<and> file_ok D F rel"
  proof
    fix x assume "x \<in> set (artifacts root n)"
    then have "fst x \<in> set (map fst (artifacts root n))" by simp
    then have "fst x \<in> under root ` set artifact_tails" by (simp add: artifacts_under)
    with ft show "\<exists>rel. fst x = under root rel \<and> file_ok D F rel" by (auto simp: fits_def)
  qed
  from write_files_under[OF u1 this, of f] obtain w2 where
    m2: "write_files w1 (artifacts root n) f = (None, w2)" and u2: "usable D F w2 root r"
    by blast
  have "usable D F (print w2 (''[OK] Project generated at: '' @ str_path root)) root r"
    using u2 by simp
  with m1 m2 show ?thesis by (simp add: generate_def)
qed

lemma scaffold_under:
  assumes u: "usable D F w (project_root p n) r" and ft: "fits D F"
    and g: "f \<or> lookup w r = None \<or> os_listdir w (project_root p n) = Inr []"
  shows "\<exists>w'. scaffold w p n f = (Returned, w') \<and> usable D F w' (project_root p n) r"
proof (cases rule: scaffold_cases[of w p n f])
  case (listdir_fail e)
  from u have rs: "resolve w (project_root p n) = Inr r" by (simp add: usable_def)
  from listdir_fail(1) rs have "lookup w r \<noteq> None" by (auto simp: exists_iff)
  with u have "lookup w r = Some Dir" by (auto simp: usable_def)
  with rs have "\<exists>names. os_listdir w (project_root p n) = Inr names"
    by (simp add: os_listdir_def)
  with listdir_fail(2) show ?thesis by simp
next
  case guard
  from u have rs: "resolve w (project_root p n) = Inr r" by (simp add: usable_def)
  from guard(1) rs g show ?thesis by (auto simp: guard_fires_def exists_iff)
next
  case gen
  with generate_under[OF u ft, of n f] show ?thesis by simp
qed

subsection \<open>What a run may modify\<close>

lemma modifies_refl: "modifies S w w"
  by (simp add: modifies_def ext_refl)

lemma modifies_ext: "modifies S w w' \<Longrightarrow> ext w w'"
  by (simp add: modifies_def)

lemma modifies_mono: "modifies S w w' \<Longrightarrow> S \<subseteq> T \<Longrightarrow> modifies T w w'"
  unfolding modifies_def by blast

lemma modifies_trans:
  assumes ab: "modifies S a b" and bc: "modifies S b c"
  shows "modifies S a c"
proof -
  have e: "ext a c" using ab bc by (auto simp: modifies_def intro: ext_trans)
  have ebc: "ext b c" using bc by (simp add: modifies_def)
  have "lookup c q = lookup a q \<or> (\<exists>p\<in>S. resolve c p = Inr q)" if q: "lookup a q \<noteq> None" for q
  proof (cases "lookup b q = lookup a q")
    case True
    with q have "lookup b q \<noteq> None" by simp
    with bc have "lookup c q = lookup b q \<or> (\<exists>p\<in>S. resolve c p = Inr q)"
      unfolding modifies_def by blast
    with True show ?thesis by auto
  next
    case False
    with q ab obtain p where "p \<in> S" "resolve b p = Inr q" by (auto simp: modifies_def)
    with resolve_ext[OF ebc] show ?thesis by blast
  qed
  with e show ?thesis by (simp add: modifies_def)
qed

lemma changed_empty_modifies: "changed {} w w' \<Longrightarrow> modifies S w w'"
  unfolding changed_def modifies_def by auto

lemma mkdir_modifies: "modifies S w (snd (mkdir w p a b))"
  using mkdir_changed[of w p a b] by (rule changed_empty_modifies)

lemma os_write_pre:
  assumes "os_write w p c = Inr w'"
  shows "\<exists>k. resolve w p = Inr k \<and> cwd w' = cwd w \<and> lookup w k \<noteq> Some Dir \<and>
             (\<forall>q. lookup w' q = (if q = k then Some (File c) else lookup w q))"
proof -
  from assms obtain d where
    nn: "\<not> has_nul p" and ne: "tail p \<noteq> []" and
    wd: "walk w (start w p) (butlast (tail p)) = Inr d" and
    ld: "lookup w d = Some Dir" and nd: "last (tail p) \<noteq> ''..''" and
    nk: "lookup w (d @ [last (tail p)]) \<noteq> Some Dir" and
    w': "w' = w\<lparr>entries := AList.update (d @ [last (tail p)]) (File c) (entries w)\<rparr>"
    by (rule os_write_Inr)
  have "lookup w' q = (if q = d @ [last (tail p)] then Some (File c) else lookup w q)" for q
    unfolding w' by (auto simp: lookup_update)
  moreover have "cwd w' = cwd w" unfolding w' by simp
  ultimately show ?thesis
    using resolve_last[OF nn ne wd ld nd] nk by blast
qed

lemma write_text_creates:
  assumes "\<not> exists w p"
  shows "modifies S w (snd (write_text w p c))"
proof (cases "os_write w p c")
  case (Inl e)
  then show ?thesis by (simp add: write_text_def modifies_refl)
next
  case (Inr w')
  from os_write_pre[OF Inr] obtain k where
    k: "resolve w p = Inr k" "cwd w' = cwd w"
       "\<And>q. lookup w' q = (if q = k then Some (File c) else lookup w q)"
    by blast
  from assms k(1) have n: "lookup w k = None" by (auto simp: exists_iff)
  have "modifies S w w'"
    unfolding modifies_def ext_def using k(2) n by (auto simp: k(3))
  with Inr show ?thesis by (simp add: write_text_def)
qed

lemma write_text_modifies: "modifies {p} w (snd (write_text w p c))"
proof (cases "os_write w p c")
  case (Inl e)
  then show ?thesis by (simp add: write_text_def modifies_refl)
next
  case (Inr w')
  from os_write_props[OF Inr] obtain k where
    k: "lookup w k \<noteq> Some Dir" "resolve w' p = Inr k" "cwd w' = cwd w"
       "\<And>q. lookup w' q = (if q = k then Some (File c) else lookup w q)"
    by blast
  have "modifies {p} w w'"
    unfolding modifies_def ext_def using k(1,2,3) by (auto simp: k(4))
  with Inr show ?thesis by (simp add: write_text_def)
qed

lemma write_init_modifies: "modifies S w (snd (write_init w d False))"
  using write_text_creates[of w "init_file d" S]
  by (auto simp: write_init_def init_file_def Let_def modifies_refl)

lemma write_file_modifies:
  "modifies (if f then {path} else {}) w (snd (write_file w path c f))"
proof -
  let ?S = "if f then {path} else {}"
  obtain r w1 where m: "mkdir w (parent path) True True = (r, w1)"
    by (cases "mkdir w (parent path) True True")
  have c1: "modifies ?S w w1" using mkdir_modifies[of ?S w "parent path" True True] m by simp
  show ?thesis
  proof (cases r)
    case (Some e)
    with m c1 show ?thesis by (simp add: write_file_def)
  next
    case None
    show ?thesis
    proof (cases "exists w1 path \<and> \<not> f")
      case True
      with m None c1 show ?thesis by (simp add: write_file_def)
    next
      case False
      have "modifies ?S w1 (snd (write_text w1 path c))"
      proof (cases f)
        case True
        with write_text_modifies[of path w1 c] show ?thesis by simp
      next
        case nf: False
        with False have "\<not> exists w1 path" by simp
        from write_text_creates[OF this] show ?thesis .
      qed
      with c1 have "modifies ?S w (snd (write_text w1 path c))" by (rule modifies_trans)
      with m None False show ?thesis by (auto simp: write_file_def)
    qed
  qed
qed

lemma make_dirs_modifies: "modifies S w (snd (make_dirs w ds))"
proof (induction ds arbitrary: w)
  case Nil
  show ?case by (simp add: modifies_refl)
next
  case (Cons d ds)
  obtain r w1 where m: "mkdir w d True True = (r, w1)" by (cases "mkdir w d True True")
  have c1: "modifies S w w1" using mkdir_modifies[of S w d True True] m by simp
  obtain r2 w2 where i: "write_init w1 d False = (r2, w2)" by (cases "write_init w1 d False")
  have "modifies S w1 w2" using write_init_modifies[of S w1 d] i by simp
  with c1 have c2: "modifies S w w2" by (rule modifies_trans)
  from c2 Cons.IH[of w2] have c3: "modifies S w (snd (make_dirs w2 ds))" by (rule modifies_trans)
  show ?case
    using m i c1 c2 c3 by (cases r; cases r2) simp_all
qed

lemma write_files_modifies:
  "modifies (if f then fst ` set xs else {}) w (snd (write_files w xs f))"
proof (induction xs arbitrary: w)
  case Nil
  show ?case by (simp add: modifies_refl)
next
  case (Cons x xs)
  obtain path c where x: "x = (path, c)" by (cases x)
  let ?S = "if f then fst ` set (x # xs) else {}"
  obtain r w1 where m: "write_file w path (c w) f = (r, w1)" by (cases "write_file w path (c w) f")
  have c1: "modifies ?S w w1"
    using write_file_modifies[of f path w "c w"] m x by (auto intro: modifies_mono)
  have "modifies ?S w1 (snd (write_files w1 xs f))"
    using Cons.IH[of w1] by (auto intro: modifies_mono)
  with c1 have c2: "modifies ?S w (snd (write_files w1 xs f))" by (rule modifies_trans)
  show ?case using m c1 c2 x by (cases r) simp_all
qed

lemma modifies_print: "modifies S w w' \<Longrightarrow> modifies S w (print w' l)"
  by (simp add: modifies_def ext_def)

lemma generate_modifies:
  "modifies (if f then fst ` set (artifacts root n) else {}) w (snd (generate w root n f))"
proof -
  let ?S = "if f then fst ` set (artifacts root n) else {}"
  have A: "modifies ?S w (snd (make_dirs w (dirs root)))" by (rule make_dirs_modifies)
  have B: "modifies ?S w1 (snd (write_files w1 (artifacts root n) f))" for w1
    by (rule write_files_modifies)
  show ?thesis
  proof (cases rule: generate_cases[of w root n f])
    case (dirs_fail e w1)
    with A show ?thesis by simp
  next
    case (files_fail e w1 w2)
    with A B[of w1] show ?thesis by (auto intro: modifies_trans)
  next
    case (ok w1 w2)
    with A B[of w1] have "modifies ?S w w2" by (auto intro: modifies_trans)
    with ok show ?thesis by (simp add: modifies_print)
  qed
qed

lemma scaffold_modifies:
  "modifies (if f then fst ` set (artifacts (project_root p n) n) else {}) w (snd (scaffold w p n f))"
proof (cases rule: scaffold_cases[of w p n f])
  case (listdir_fail e)
  then show ?thesis by (simp add: modifies_refl)
next
  case guard
  then show ?thesis by (simp add: modifies_print modifies_refl)
next
  case gen
  with generate_modifies[of f "project_root p n" n w] show ?thesis by simp
qed

lemma scaffold_changed:
  "changed (declared (project_root p n) n) w (snd (scaffold w p n f))"
proof (cases rule: scaffold_cases[of w p n f])
  case (listdir_fail e)
  then show ?thesis by (simp add: changed_refl)
next
  case guard
  then show ?thesis by (simp add: changed_print changed_refl)
next
  case gen
  with generate_changed[of "project_root p n" n w f] show ?thesis by simp
qed

lemma os_write_is_dir:
  assumes "is_dir w p"
  shows "os_write w p c = Inl IsADirectoryError"
proof -
  from assms obtain q where q: "resolve w p = Inr q" "lookup w q = Some Dir"
    by (auto simp: is_dir_iff)
  then have nn: "\<not> has_nul p" and wk: "walk w (start w p) (tail p) = Inr q"
    by (auto simp: resolve_def split: if_splits)
  show ?thesis
  proof (cases "tail p = []")
    case True
    with nn show ?thesis by (simp add: os_write_def)
  next
    case False
    then have t: "tail p = butlast (tail p) @ [last (tail p)]" by simp
    from wk have "walk w (start w p) (butlast (tail p) @ [last (tail p)]) = Inr q"
      using t by simp
    then obtain d where d: "walk w (start w p) (butlast (tail p)) = Inr d"
      and st: "walk w d [last (tail p)] = Inr q"
      by (auto simp: walk_append split: sum.splits)
    from st have ld: "lookup w d = Some Dir"
      by (auto split: option.splits node.splits)
    show ?thesis
    proof (cases "last (tail p) = ''..''")
      case True
      with nn False d ld show ?thesis by (simp add: os_write_def)
    next
      case nd: False
      with st ld have "q = d @ [last (tail p)]" by simp
      with q(2) nn False d ld nd show ?thesis by (simp add: os_write_def)
    qed
  qed
qed

subsection \<open>The shape of a generated tree\<close>

lemma dir_tails_segs: "\<forall>d\<in>set ([''infra''] # dir_tails). set d \<subseteq> seg_names \<and> plain d"
  by (simp add: dir_tails_def seg_names_def plain_def)

lemma std_dirs_segs: "pre \<in> std_dirs \<Longrightarrow> set pre \<subseteq> seg_names"
  using dir_tails_segs set_mono_prefix unfolding std_dirs_def by blast

lemma std_dirs_closed: "x \<in> std_dirs \<Longrightarrow> prefix pre x \<Longrightarrow> pre \<noteq> [] \<Longrightarrow> pre \<in> std_dirs"
  unfolding std_dirs_def using prefix_order.trans by blast

lemma std_dirs_not_file_like: "x \<in> std_dirs \<Longrightarrow> \<not> file_like x"
proof
  assume x: "x \<in> std_dirs" and f: "file_like x"
  then have "last x \<in> set x" by (simp add: file_like_def)
  with std_dirs_segs[OF x] have "last x \<in> seg_names" by blast
  with f show False by (simp add: file_like_def)
qed

lemma artifact_tails_like: "\<forall>a\<in>set artifact_tails. file_like a"
  by (simp add: artifact_tails_def file_like_def seg_names_def plain_def)

lemma marker_tails_like: "\<forall>a\<in>set marker_tails. file_like a"
proof -
  have "''__init__.py'' \<notin> seg_names" by (simp add: seg_names_def)
  moreover have "plain [''__init__.py'']" by (simp add: plain_def)
  ultimately show ?thesis
    using dir_tails_segs by (auto simp: marker_tails_def file_like_def plain_append)
qed

lemma artifact_parents: "\<forall>a\<in>set artifact_tails. butlast a = [] \<or> butlast a \<in> std_dirs"
  by (simp add: artifact_tails_def std_dirs_def dir_tails_def)

lemma dir_tails_std: "d \<in> set dir_tails \<Longrightarrow> d \<in> std_dirs"
proof -
  assume d: "d \<in> set dir_tails"
  have "\<forall>d\<in>set dir_tails. d \<noteq> []" by (simp add: dir_tails_def)
  with d show ?thesis unfolding std_dirs_def by auto
qed

lemma dir_ok_std:
  assumes "x = [] \<or> x \<in> std_dirs" and "std_dirs \<subseteq> D" and "F \<inter> std_dirs = {}"
  shows "dir_ok D F x"
  unfolding dir_ok_def
proof (intro conjI allI impI)
  show "plain x"
  proof (cases "x = []")
    case True
    then show ?thesis by (simp add: plain_def)
  next
    case False
    with assms(1) obtain d where d: "d \<in> set ([''infra''] # dir_tails)" "prefix x d"
      unfolding std_dirs_def by auto
    with dir_tails_segs have "plain d" by blast
    with d(2) show ?thesis by (auto simp: plain_def prefix_def)
  qed
next
  fix pre assume p: "prefix pre x \<and> pre \<noteq> []"
  with assms(1) have "x \<in> std_dirs" by auto
  with p have s: "pre \<in> std_dirs" by (auto intro: std_dirs_closed)
  with assms(2) show "pre \<in> D" by auto
  from s assms(3) show "pre \<notin> F" by auto
qed

lemma marker_parent: "a \<in> set marker_tails \<Longrightarrow> butlast a \<in> std_dirs"
  by (auto simp: marker_tails_def dir_tails_std)

lemma std_files_like: "a \<in> std_files \<Longrightarrow> file_like a"
  using artifact_tails_like marker_tails_like by (auto simp: std_files_def)

lemma std_apart: "std_dirs \<inter> std_files = {}"
  using std_files_like std_dirs_not_file_like by blast

lemma markers_not_artifacts: "set marker_tails \<inter> set artifact_tails = {}"
proof -
  have "\<forall>a\<in>set artifact_tails. last a \<noteq> ''__init__.py''"
    by (simp add: artifact_tails_def)
  moreover have "\<forall>m\<in>set marker_tails. last m = ''__init__.py''"
    by (simp add: marker_tails_def)
  ultimately show ?thesis by fastforce
qed

lemma fits_general:
  assumes D: "std_dirs \<subseteq> D" and F: "std_files \<subseteq> F"
    and FD: "F \<inter> std_dirs = {}" and DA: "D \<inter> set artifact_tails = {}"
  shows "fits D F"
  unfolding fits_def
proof (intro conjI ballI)
  fix d assume d: "d \<in> set dir_tails"
  show "dir_ok D F d"
    using dir_ok_std[of d D F] dir_tails_std[OF d] D FD by simp
  have m: "d @ [''__init__.py''] \<in> set marker_tails" using d by (simp add: marker_tails_def)
  then have inF: "d @ [''__init__.py''] \<in> F" using F by (auto simp: std_files_def)
  have "file_like (d @ [''__init__.py''])" using m marker_tails_like by blast
  moreover have "dir_ok D F (butlast (d @ [''__init__.py'']))"
    using dir_ok_std[of d D F] dir_tails_std[OF d] D FD by simp
  ultimately show "marker_ok D F (d @ [''__init__.py''])"
    using inF by (simp add: marker_ok_def file_like_def)
next
  fix a assume a: "a \<in> set artifact_tails"
  then have inF: "a \<in> F" using F by (auto simp: std_files_def)
  have nD: "a \<notin> D" using a DA by auto
  have like: "file_like a" using a artifact_tails_like by blast
  have "dir_ok D F (butlast a)"
    using dir_ok_std[of "butlast a" D F] artifact_parents a D FD by auto
  with inF nD like show "file_ok D F a" by (simp add: file_ok_def file_like_def)
qed

lemma fits_std_insert:
  assumes "\<forall>a\<in>X. file_like a"
  shows "fits std_dirs (std_files \<union> X)"
proof (rule fits_general)
  show "(std_files \<union> X) \<inter> std_dirs = {}"
    using assms std_files_like std_dirs_not_file_like by blast
  show "std_dirs \<inter> set artifact_tails = {}"
    using artifact_tails_like std_dirs_not_file_like by blast
qed simp_all

lemma fits_std: "fits std_dirs std_files"
  using fits_std_insert[of "{}"] by simp

lemma fits_marker_dir:
  assumes "m \<in> set marker_tails"
  shows "fits (insert m std_dirs) std_files"
proof (rule fits_general)
  show "std_files \<inter> std_dirs = {}" using std_apart by blast
  show "insert m std_dirs \<inter> set artifact_tails = {}"
    using assms markers_not_artifacts artifact_tails_like std_dirs_not_file_like by blast
qed auto

lemma fits_free: "fits (- std_files) (- std_dirs)"
proof (rule fits_general)
  show "std_dirs \<subseteq> - std_files" using std_apart by blast
  show "std_files \<subseteq> - std_dirs" using std_apart by blast
  show "- std_dirs \<inter> std_dirs = {}" by simp
  show "- std_files \<inter> set artifact_tails = {}" by (auto simp: std_files_def)
qed

subsection \<open>Runs from the example states\<close>

lemma root_billing:
  "project_root ''/tmp/out'' ''billing'' = PPath ''/'' [''tmp'', ''out'', ''billing'']"
  by (simp add: project_root_def joinpath_def parse_path_def splitroot_def)

lemma root_empty_name:
  "project_root ''/tmp/out'' '''' = PPath ''/'' [''tmp'', ''out'']"
  by (simp add: project_root_def joinpath_def parse_path_def splitroot_def)

lemma usable_fresh:
  "usable D F w_fresh (PPath ''/'' [''tmp'', ''out'', ''billing'']) [''tmp'', ''out'', ''billing'']"
  by (simp add: usable_def has_nul_def resolve_def start_def shape_def lookup_def w_fresh_def)

lemma usable_plain:
  "usable D F w_plain (PPath ''/'' [''tmp'', ''out'']) [''tmp'', ''out'']"
  by (simp add: usable_def has_nul_def resolve_def start_def shape_def lookup_def w_plain_def)

lemma listdir_plain: "os_listdir w_plain (PPath ''/'' [''tmp'', ''out'']) = Inr []"
  by (simp add: os_listdir_def has_nul_def resolve_def start_def lookup_def w_plain_def)

lemma notes_like: "file_like [''notes.txt'']"
  by (simp add: file_like_def plain_def seg_names_def)

lemma usable_used:
  "usable std_dirs (std_files \<union> {[''notes.txt'']}) w_used
     (PPath ''/'' [''tmp'', ''out'', ''billing'']) [''tmp'', ''out'', ''billing'']"
proof -
  have a: "[''src''] \<in> std_dirs" by (simp add: std_dirs_def dir_tails_def)
  have b: "[''src'', ''__init__.py''] \<in> std_files"
    by (simp add: std_files_def marker_tails_def dir_tails_def)
  have c: "[''Makefile''] \<in> std_files"
    by (simp add: std_files_def artifact_tails_def)
  have "shape std_dirs (std_files \<union> {[''notes.txt'']}) w_used [''tmp'', ''out'', ''billing'']"
    unfolding shape_def using a b c
    by (auto simp: lookup_def w_used_def)
  then show ?thesis
    by (simp add: usable_def has_nul_def resolve_def start_def lookup_def w_used_def)
qed

lemma run_fresh:
  "\<exists>w'. scaffold w_fresh ''/tmp/out'' ''billing'' f = (Returned, w') \<and>
        usable std_dirs std_files w' (PPath ''/'' [''tmp'', ''out'', ''billing''])
          [''tmp'', ''out'', ''billing'']"
proof -
  have "lookup w_fresh [''tmp'', ''out'', ''billing''] = None"
    by (simp add: lookup_def w_fresh_def)
  with scaffold_under[of std_dirs std_files w_fresh "''/tmp/out''" "''billing''"
      "[''tmp'', ''out'', ''billing'']" f] usable_fresh fits_std
  show ?thesis by (simp add: root_billing)
qed

lemma run_used:
  "\<exists>w'. scaffold w_used ''/tmp/out'' ''billing'' True = (Returned, w') \<and>
        usable std_dirs (std_files \<union> {[''notes.txt'']}) w'
          (PPath ''/'' [''tmp'', ''out'', ''billing'']) [''tmp'', ''out'', ''billing'']"
proof -
  have "fits std_dirs (std_files \<union> {[''notes.txt'']})"
    using fits_std_insert[of "{[''notes.txt'']}"] notes_like by simp
  with scaffold_under[of std_dirs "std_files \<union> {[''notes.txt'']}" w_used "''/tmp/out''" "''billing''"
      "[''tmp'', ''out'', ''billing'']" True] usable_used
  show ?thesis by (simp add: root_billing)
qed

lemma run_plain:
  "\<exists>w'. scaffold w_plain ''/tmp/out'' '''' False = (Returned, w') \<and>
        usable std_dirs std_files w' (PPath ''/'' [''tmp'', ''out'']) [''tmp'', ''out'']"
  using scaffold_under[of std_dirs std_files w_plain "''/tmp/out''" "''''" "[''tmp'', ''out'']" False]
    usable_plain fits_std listdir_plain
  by (simp add: root_empty_name)

subsection \<open>Shared facts about a run\<close>

lemma scaffold_post:
  assumes "scaffold w p n f = (Returned, w')"
  shows "(\<forall>d\<in>set (dirs (project_root p n)). is_dir w' d \<and> exists w' (init_file d)) \<and>
         (\<forall>x\<in>set (artifacts (project_root p n) n). exists w' (fst x))"
proof (cases rule: scaffold_cases[of w p n f])
  case (listdir_fail e)
  with assms show ?thesis by simp
next
  case guard
  with assms show ?thesis by simp
next
  case gen
  with assms generate_post[of w "project_root p n" n f w'] show ?thesis by simp
qed


lemma dir_has_child:
  assumes "is_dir w (under root [s])" and "s \<noteq> ''..''"
  shows "exists w root \<and> (\<exists>x xs. os_listdir w root = Inr (x # xs))"
proof -
  from assms(1) obtain q where q: "resolve w (under root [s]) = Inr q" "lookup w q = Some Dir"
    by (auto simp: is_dir_iff)
  from q(1) have nn: "\<not> has_nul root"
    by (auto simp: resolve_def has_nul_under split: if_splits)
  from q(1) have "walk w (start w root) (tail root @ [s]) = Inr q"
    by (auto simp: resolve_def split: if_splits)
  then obtain r where r: "walk w (start w root) (tail root) = Inr r" "walk w r [s] = Inr q"
    by (auto simp: walk_append split: sum.splits)
  from r(2) have d: "lookup w r = Some Dir" by (auto split: option.splits node.splits)
  with r(2) assms(2) have qr: "q = r @ [s]" by simp
  from r(1) nn have rs: "resolve w root = Inr r" by (simp add: resolve_def)
  from q(2) qr have "map_of (entries w) (r @ [s]) = Some Dir" by (simp add: lookup_def)
  then have "(r @ [s], Dir) \<in> set (entries w)" by (rule map_of_SomeD)
  then have "(r @ [s], Dir) \<in> set (filter (\<lambda>e. fst e \<noteq> [] \<and> butlast (fst e) = r) (entries w))"
    by simp
  then have "filter (\<lambda>e. fst e \<noteq> [] \<and> butlast (fst e) = r) (entries w) \<noteq> []"
    by (metis empty_iff list.set(1))
  then have "map (\<lambda>e. last (fst e))
               (filter (\<lambda>e. fst e \<noteq> [] \<and> butlast (fst e) = r) (entries w)) \<noteq> []"
    by simp
  then obtain x xs where "map (\<lambda>e. last (fst e))
               (filter (\<lambda>e. fst e \<noteq> [] \<and> butlast (fst e) = r) (entries w)) = x # xs"
    by (meson neq_Nil_conv)
  then have "\<exists>x xs. os_listdir w root = Inr (x # xs)"
    using rs d by (simp add: os_listdir_def)
  moreover have "exists w root" using rs d by (auto simp: exists_iff)
  ultimately show ?thesis by simp
qed

lemma src_first: "joinpath root ''src'' \<in> set (dirs root)"
  by (simp add: dirs_def)

lemma joinpath_src: "joinpath root ''src'' = under root [''src'']"
  by (simp add: under_def joinpath_def parse_path_def splitroot_def)

lemma rerun_guard:
  assumes "scaffold w p n f = (Returned, w')"
  shows "scaffold w' p n False =
           (SysExit 1,
            print w' (''[ERROR] Target path already exists and is not empty: ''
                       @ str_path (project_root p n)))"
proof -
  from scaffold_post[OF assms] src_first[of "project_root p n"]
  have "is_dir w' (under (project_root p n) [''src''])" by (auto simp: joinpath_src)
  from dir_has_child[OF this] have "guard_fires w' (project_root p n) False"
    by (simp add: guard_fires_def)
  then show ?thesis
    by (cases rule: scaffold_cases[of w' p n False]) (auto simp: guard_fires_def)
qed

lemma scaffold_generate:
  "guard_passes w (project_root p n) f \<Longrightarrow> scaffold w p n f = generate w (project_root p n) n f"
  by (cases rule: scaffold_cases[of w p n f]) (auto simp: guard_passes_def guard_fires_def)

lemma write_files_append:
  "write_files w (xs @ ys) f =
     (case write_files w xs f of (Some e, w') \<Rightarrow> (Some e, w') | (None, w') \<Rightarrow> write_files w' ys f)"
  by (induction xs arbitrary: w) (auto split: option.splits prod.splits)

lemma marker_kept:
  assumes d: "d \<in> set (dirs (project_root p n))" and r: "read_text w (init_file d) = Some c"
  shows "read_text (snd (scaffold w p n f)) (init_file d) = Some c"
proof -
  let ?root = "project_root p n" and ?w' = "snd (scaffold w p n f)"
  let ?S = "if f then fst ` set (artifacts ?root n) else {}"
  from r obtain q where q: "resolve w (init_file d) = Inr q" "lookup w q = Some (File c)"
    by (auto simp: read_text_iff)
  have m: "modifies ?S w ?w'" by (rule scaffold_modifies)
  then have e: "ext w ?w'" by (rule modifies_ext)
  have q': "resolve ?w' (init_file d) = Inr q" using resolve_ext[OF e q(1)] .
  from d obtain dt where dt: "dt \<in> set dir_tails" "d = under ?root dt"
    by (auto simp: dirs_under)
  have nd: "''..'' \<notin> set (dt @ [''__init__.py''])"
    using dt(1) dir_tails_segs by (auto simp: plain_def)
  have "\<not> (\<exists>path\<in>?S. resolve ?w' path = Inr q)"
  proof
    assume "\<exists>path\<in>?S. resolve ?w' path = Inr q"
    then obtain path where path: "path \<in> fst ` set (artifacts ?root n)" "resolve ?w' path = Inr q"
      by (auto split: if_splits)
    from path(1) have "path \<in> set (map fst (artifacts ?root n))" by simp
    then obtain at where at: "at \<in> set artifact_tails" "path = under ?root at"
      by (auto simp: artifacts_under)
    have "at \<noteq> dt @ [''__init__.py'']"
    proof
      assume "at = dt @ [''__init__.py'']"
      with at(1) have "dt @ [''__init__.py''] \<in> set artifact_tails" by simp
      moreover have "\<forall>a\<in>set artifact_tails. last a \<noteq> ''__init__.py''"
        by (simp add: artifact_tails_def)
      ultimately show False by fastforce
    qed
    moreover have "''..'' \<notin> set at" using at(1) artifact_tails_ok(2) by blast
    ultimately have "apart ?w' (under ?root at) {under ?root (dt @ [''__init__.py''])}"
      using nd by (intro apart_under) auto
    with path(2) at(2) q' dt(2) show False
      by (auto simp: apart_def init_file_under)
  qed
  with m q(2) have "lookup ?w' q = Some (File c)"
    unfolding modifies_def by (metis option.distinct(1))
  with q' show ?thesis by (auto simp: read_text_iff)
qed

lemma declared_under:
  "declared root n = under root ` (set marker_tails \<union> set artifact_tails)"
proof -
  have "init_file ` set (dirs root) = under root ` set marker_tails"
    by (auto simp: dirs_under marker_tails_def init_file_under image_iff)
  moreover have "fst ` set (artifacts root n) = under root ` set artifact_tails"
    using artifacts_under[of root n] by (metis list.set_map)
  ultimately show ?thesis by (auto simp: declared_def)
qed

lemma nul_stops:
  assumes "has_nul (project_root p n)"
  shows "scaffold w p n f = (Raised ValueError, w)"
proof -
  let ?root = "project_root p n"
  from assms have ne: "\<not> exists w ?root" by (simp add: exists_def os_stat_def resolve_def)
  have "has_nul (under ?root [''src''])" using assms by (simp add: has_nul_under)
  then have "os_mkdir w (under ?root [''src'']) = Inl ValueError" by (simp add: os_mkdir_def)
  then have "mkdir w (under ?root [''src'']) True True = (Some ValueError, w)"
    by (simp add: mkdir_other)
  moreover have "\<exists>rest. dirs ?root = under ?root [''src''] # rest"
    by (simp add: dirs_under dir_tails_def)
  ultimately have "make_dirs w (dirs ?root) = (Some ValueError, w)" by auto
  then have "generate w ?root n f = (Raised ValueError, w)" by (simp add: generate_def)
  with ne show ?thesis by (simp add: scaffold_def project_root_def)
qed

lemma root_empty: "project_root p '''' = parse_path p"
  by (simp add: project_root_def joinpath_def parse_path_def splitroot_def)

subsection \<open>What a run leaves outside the root\<close>

lemma inside_refl: "inside r w w"
  by (simp add: inside_def)

lemma insideD: "inside r w w' \<Longrightarrow> \<not> prefix r q \<Longrightarrow> lookup w' q = lookup w q"
  unfolding inside_def by (erule allE[of _ q]) (erule mp)

lemma inside_trans:
  assumes "inside r a b" and "inside r b c"
  shows "inside r a c"
  unfolding inside_def
proof (intro allI impI)
  fix q assume n: "\<not> prefix r q"
  from insideD[OF assms(2) n] insideD[OF assms(1) n] show "lookup c q = lookup a q"
    by (rule trans)
qed

lemma inside_print: "inside r w w' \<Longrightarrow> inside r w (print w' l)"
  unfolding inside_def by (simp only: lookup_print)

lemma point_inside:
  assumes rs: "resolve w root = Inr r" and e: "ext w w'" and pl: "''..'' \<notin> set rel"
    and k: "resolve w' (under root rel) = Inr k"
    and l: "\<forall>q. q \<noteq> k \<longrightarrow> lookup w' q = lookup w q"
  shows "inside r w w'"
proof -
  from resolve_under[OF pl k] obtain r' where r': "resolve w' root = Inr r'" "k = r' @ rel"
    by blast
  from resolve_ext[OF e rs] r'(1) have "r' = r" by simp
  with r'(2) have pk: "prefix r k" by simp
  show ?thesis
    unfolding inside_def
  proof (intro allI impI)
    fix q assume "\<not> prefix r q"
    with pk have "q \<noteq> k" by auto
    with l show "lookup w' q = lookup w q" by simp
  qed
qed

lemma os_mkdir_inside:
  assumes rs: "resolve w root = Inr r" and pl: "''..'' \<notin> set rel"
    and m: "os_mkdir w (under root rel) = Inr w'"
  shows "inside r w w'"
proof -
  let ?p = "under root rel"
  from m obtain d where
    nn: "\<not> has_nul ?p" and ne: "tail ?p \<noteq> []" and
    wd: "walk w (start w ?p) (butlast (tail ?p)) = Inr d" and
    ld: "lookup w d = Some Dir" and nd: "last (tail ?p) \<noteq> ''..''" and
    w': "w' = w\<lparr>entries := (d @ [last (tail ?p)], Dir) # entries w\<rparr>"
    by (rule os_mkdir_Inr)
  let ?k = "d @ [last (tail ?p)]"
  have e: "ext w w'" using os_mkdir_changed[OF m] by (rule changed_ext)
  have "resolve w ?p = Inr ?k" using resolve_last[OF nn ne wd ld nd] .
  then have k: "resolve w' ?p = Inr ?k" by (rule resolve_ext[OF e])
  have "\<forall>q. q \<noteq> ?k \<longrightarrow> lookup w' q = lookup w q"
    unfolding w' by (simp add: lookup_cons lookup_def)
  from point_inside[OF rs e pl k this] show ?thesis .
qed

lemma os_mkdir_root_found:
  assumes "resolve w root = Inr r"
  shows "os_mkdir w root \<noteq> Inl FileNotFoundError"
proof (cases "tail root = []")
  case True
  then show ?thesis by (simp add: os_mkdir_def)
next
  case False
  from assms have nn: "\<not> has_nul root" and wk: "walk w (start w root) (tail root) = Inr r"
    by (auto simp: resolve_def split: if_splits)
  from False have "tail root = butlast (tail root) @ [last (tail root)]" by simp
  with wk have "walk w (start w root) (butlast (tail root) @ [last (tail root)]) = Inr r"
    by simp
  then obtain d where d: "walk w (start w root) (butlast (tail root)) = Inr d"
    and st: "walk w d [last (tail root)] = Inr r"
    by (auto simp: walk_append split: sum.splits)
  from st have "lookup w d = Some Dir" by (auto split: option.splits node.splits)
  with nn False d show ?thesis by (simp add: os_mkdir_def)
qed

lemma mkdir_inside:
  "resolve w root = Inr r \<Longrightarrow> p = under root rel \<Longrightarrow> ''..'' \<notin> set rel \<Longrightarrow>
   inside r w (snd (mkdir w p a b))"
proof (induction w p a b arbitrary: rel rule: mkdir.induct)
  case (1 w p parents exist_ok)
  note rs = "1.prems"(1) and p = "1.prems"(2) and pl = "1.prems"(3)
  show ?case
  proof (cases "os_mkdir w p")
    case (Inr w')
    with os_mkdir_inside[OF rs pl] p show ?thesis by (simp add: mkdir_Inr)
  next
    case (Inl e)
    show ?thesis
    proof (cases "e = FileNotFoundError")
      case False
      with Inl show ?thesis by (simp add: mkdir_other inside_refl)
    next
      case e: True
      show ?thesis
      proof (cases "\<not> parents \<or> parent p = p")
        case True
        with Inl e show ?thesis by (simp add: mkdir_stop inside_refl)
      next
        case c: False
        have ne: "rel \<noteq> []"
        proof
          assume "rel = []"
          with p have "p = root" by (simp add: under_Nil)
          with Inl e os_mkdir_root_found[OF rs] show False by simp
        qed
        then have pp: "parent p = under root (butlast rel)" using p by (simp add: parent_under)
        have plb: "''..'' \<notin> set (butlast rel)" using pl by (auto dest: in_set_butlastD)
        obtain x w1 where m1: "mkdir w (parent p) True True = (x, w1)"
          by (cases "mkdir w (parent p) True True")
        have c1: "inside r w w1" using "1.IH"(1)[OF Inl e c rs pp plb] m1 by simp
        have e1: "ext w w1" using mkdir_changed[of w "parent p" True True] m1
          by (auto dest: changed_ext)
        have rs1: "resolve w1 root = Inr r" using resolve_ext[OF e1 rs] .
        have unf: "mkdir w p parents exist_ok =
            (case x of Some e \<Rightarrow> (Some e, w1) | None \<Rightarrow> mkdir w1 p False exist_ok)"
          using Inl e c m1 by (simp add: mkdir_rec split: option.splits)
        show ?thesis
        proof (cases x)
          case (Some a)
          with unf c1 show ?thesis by simp
        next
          case None
          have "inside r w1 (snd (mkdir w1 p False exist_ok))"
            using "1.IH"(2)[OF Inl e c m1[symmetric] None rs1 p pl] .
          with c1 have "inside r w (snd (mkdir w1 p False exist_ok))" by (rule inside_trans)
          with unf None show ?thesis by simp
        qed
      qed
    qed
  qed
qed

lemma write_text_inside:
  assumes rs: "resolve w root = Inr r" and pl: "''..'' \<notin> set rel"
  shows "inside r w (snd (write_text w (under root rel) c))"
proof (cases "os_write w (under root rel) c")
  case (Inl e)
  then show ?thesis by (simp add: write_text_def inside_refl)
next
  case (Inr w')
  from os_write_props[OF Inr] obtain k where
    k: "resolve w' (under root rel) = Inr k"
       "\<And>q. lookup w' q = (if q = k then Some (File c) else lookup w q)"
    by blast
  have e: "ext w w'"
    using write_text_changed[of "under root rel" w c] Inr
    by (auto simp: write_text_def dest: changed_ext)
  have "\<forall>q. q \<noteq> k \<longrightarrow> lookup w' q = lookup w q" using k(2) by simp
  from point_inside[OF rs e pl k(1) this] Inr show ?thesis by (simp add: write_text_def)
qed

lemma write_init_inside:
  assumes rs: "resolve w root = Inr r" and pl: "''..'' \<notin> set rel"
  shows "inside r w (snd (write_init w (under root rel) f))"
proof -
  have "''..'' \<notin> set (rel @ [''__init__.py''])" using pl by simp
  from write_text_inside[OF rs this] show ?thesis
    using init_file_under[of root rel]
    by (simp add: write_init_def init_file_def Let_def inside_refl)
qed

lemma write_file_inside:
  assumes rs: "resolve w root = Inr r" and pl: "''..'' \<notin> set rel" and ne: "rel \<noteq> []"
  shows "inside r w (snd (write_file w (under root rel) c f))"
proof -
  let ?p = "under root rel"
  have pp: "parent ?p = under root (butlast rel)" using ne by (rule parent_under)
  have plb: "''..'' \<notin> set (butlast rel)" using pl by (auto dest: in_set_butlastD)
  obtain x w1 where m: "mkdir w (parent ?p) True True = (x, w1)"
    by (cases "mkdir w (parent ?p) True True")
  have c1: "inside r w w1" using mkdir_inside[OF rs pp plb, of True True] m by simp
  have e1: "ext w w1" using mkdir_changed[of w "parent ?p" True True] m
    by (auto dest: changed_ext)
  have rs1: "resolve w1 root = Inr r" using resolve_ext[OF e1 rs] .
  show ?thesis
  proof (cases x)
    case (Some e)
    with m c1 show ?thesis by (simp add: write_file_def)
  next
    case None
    show ?thesis
    proof (cases "exists w1 ?p \<and> \<not> f")
      case True
      with m None c1 show ?thesis by (simp add: write_file_def)
    next
      case False
      have "inside r w (snd (write_text w1 ?p c))"
        using c1 write_text_inside[OF rs1 pl] by (rule inside_trans)
      with m None False show ?thesis by (auto simp: write_file_def)
    qed
  qed
qed

lemma make_dirs_inside:
  "resolve w root = Inr r \<Longrightarrow> \<forall>d\<in>set ds. ''..'' \<notin> set d \<Longrightarrow>
   inside r w (snd (make_dirs w (map (under root) ds)))"
proof (induction ds arbitrary: w)
  case Nil
  show ?case by (simp add: inside_refl)
next
  case (Cons d ds)
  note rs = Cons.prems(1)
  from Cons.prems(2) have pl: "''..'' \<notin> set d" by simp
  obtain x w1 where m: "mkdir w (under root d) True True = (x, w1)"
    by (cases "mkdir w (under root d) True True")
  have c1: "inside r w w1" using mkdir_inside[OF rs refl pl, of True True] m by simp
  have e1: "ext w w1" using mkdir_changed[of w "under root d" True True] m
    by (auto dest: changed_ext)
  have rs1: "resolve w1 root = Inr r" using resolve_ext[OF e1 rs] .
  obtain y w2 where i: "write_init w1 (under root d) False = (y, w2)"
    by (cases "write_init w1 (under root d) False")
  have "inside r w1 w2" using write_init_inside[OF rs1 pl, of False] i by simp
  with c1 have c2: "inside r w w2" by (rule inside_trans)
  have e2: "ext w1 w2" using write_init_changed[of "under root d" w1 False] i
    by (auto dest: changed_ext)
  have rs2: "resolve w2 root = Inr r" using resolve_ext[OF e2 rs1] .
  have "inside r w2 (snd (make_dirs w2 (map (under root) ds)))"
    using Cons.IH[OF rs2] Cons.prems(2) by simp
  with c2 have c3: "inside r w (snd (make_dirs w2 (map (under root) ds)))"
    by (rule inside_trans)
  show ?case using m i c1 c2 c3 by (cases x; cases y) simp_all
qed

lemma write_files_inside:
  "resolve w root = Inr r \<Longrightarrow>
   \<forall>x\<in>set xs. \<exists>rel. fst x = under root rel \<and> ''..'' \<notin> set rel \<and> rel \<noteq> [] \<Longrightarrow>
   inside r w (snd (write_files w xs f))"
proof (induction xs arbitrary: w)
  case Nil
  show ?case by (simp add: inside_refl)
next
  case (Cons x xs)
  note rs = Cons.prems(1)
  obtain path c where x: "x = (path, c)" by (cases x)
  from Cons.prems(2) x obtain rel where
    rel: "path = under root rel" "''..'' \<notin> set rel" "rel \<noteq> []" by auto
  obtain y w1 where m: "write_file w path (c w) f = (y, w1)"
    by (cases "write_file w path (c w) f")
  have c1: "inside r w w1" using write_file_inside[OF rs rel(2,3), of "c w" f] m rel(1) by simp
  have e1: "ext w w1" using write_file_changed[of path w "c w" f] m
    by (auto dest: changed_ext)
  have rs1: "resolve w1 root = Inr r" using resolve_ext[OF e1 rs] .
  have "inside r w1 (snd (write_files w1 xs f))"
    using Cons.IH[OF rs1] Cons.prems(2) by simp
  with c1 have c2: "inside r w (snd (write_files w1 xs f))" by (rule inside_trans)
  show ?case using m c1 c2 x by (cases y) simp_all
qed

lemma generate_inside:
  assumes rs: "resolve w root = Inr r"
  shows "inside r w (snd (generate w root n f))"
proof -
  have dp: "\<forall>d\<in>set dir_tails. ''..'' \<notin> set d" by (simp add: dir_tails_def)
  have A: "inside r w (snd (make_dirs w (dirs root)))"
    using make_dirs_inside[OF rs dp] by (simp add: dirs_under)
  have ap: "\<forall>x\<in>set (artifacts root n). \<exists>rel. fst x = under root rel \<and> ''..'' \<notin> set rel \<and> rel \<noteq> []"
  proof
    fix x assume "x \<in> set (artifacts root n)"
    then have "fst x \<in> set (map fst (artifacts root n))" by simp
    then obtain rel where rel: "rel \<in> set artifact_tails" "fst x = under root rel"
      by (auto simp: artifacts_under)
    have "\<forall>a\<in>set artifact_tails. ''..'' \<notin> set a \<and> a \<noteq> []" by (simp add: artifact_tails_def)
    with rel show "\<exists>rel. fst x = under root rel \<and> ''..'' \<notin> set rel \<and> rel \<noteq> []" by blast
  qed
  show ?thesis
  proof (cases rule: generate_cases[of w root n f])
    case (dirs_fail e w1)
    with A show ?thesis by simp
  next
    case (files_fail e w1 w2)
    have e1: "ext w w1" using make_dirs_changed[of "dirs root" w] files_fail(1)
      by (auto dest: changed_ext)
    from write_files_inside[OF resolve_ext[OF e1 rs] ap, of f] files_fail(2)
    have "inside r w1 w2" by simp
    with A files_fail show ?thesis by (auto intro: inside_trans)
  next
    case (ok w1 w2)
    have e1: "ext w w1" using make_dirs_changed[of "dirs root" w] ok(1)
      by (auto dest: changed_ext)
    from write_files_inside[OF resolve_ext[OF e1 rs] ap, of f] ok(2)
    have "inside r w1 w2" by simp
    with A ok(1) have "inside r w w2" by (auto intro: inside_trans)
    with ok show ?thesis by (simp add: inside_print)
  qed
qed

lemma scaffold_inside:
  assumes "resolve w (project_root p n) = Inr r"
  shows "inside r w (snd (scaffold w p n f))"
proof (cases rule: scaffold_cases[of w p n f])
  case (listdir_fail e)
  then show ?thesis by (simp add: inside_refl)
next
  case guard
  then show ?thesis by (simp add: inside_print inside_refl)
next
  case gen
  with generate_inside[OF assms, of n f] show ?thesis by simp
qed

subsection \<open>Regular files on an unobstructed destination\<close>

lemma is_file_iff: "is_file w p \<longleftrightarrow> (\<exists>q c. resolve w p = Inr q \<and> lookup w q = Some (File c))"
  by (auto simp: is_file_def os_stat_def split: sum.splits option.splits node.splits)

lemma is_file_print [simp]: "is_file (print w l) p = is_file w p"
  by (simp add: is_file_def)

lemma unobstructed_usable:
  "unobstructed w root \<longleftrightarrow> (\<exists>r. usable (- std_files) (- std_dirs) w root r)"
  by (simp add: unobstructed_def usable_def shape_def cong: option.case_cong node.case_cong)

lemma file_under:
  assumes u: "usable D F w root r" and pl: "''..'' \<notin> set rel" and ne: "rel \<noteq> []"
    and nD: "rel \<notin> D" and ex: "exists w (under root rel)"
  shows "is_file w (under root rel)"
proof -
  from ex obtain q m where q: "resolve w (under root rel) = Inr q" "lookup w q = Some m"
    by (auto simp: exists_iff)
  from resolve_under[OF pl q(1)] obtain r' where "resolve w root = Inr r'" "q = r' @ rel"
    by blast
  with u have qr: "q = r @ rel" by (simp add: usable_def)
  from usable_not_dir[OF u ne nD] q(2) qr obtain c where "m = File c" by (cases m) auto
  with q show ?thesis by (auto simp: is_file_iff)
qed

lemma scaffold_files:
  assumes run: "scaffold w p n f = (Returned, w')" and un: "unobstructed w (project_root p n)"
  shows "(\<forall>d\<in>set (dirs (project_root p n)). is_file w' (init_file d)) \<and>
         (\<forall>x\<in>set (artifacts (project_root p n) n). is_file w' (fst x))"
proof -
  let ?root = "project_root p n" and ?D = "- std_files" and ?F = "- std_dirs"
  from un obtain r where u: "usable ?D ?F w ?root r" by (auto simp: unobstructed_usable)
  then have rs: "resolve w ?root = Inr r" by (simp add: usable_def)
  have g: "f \<or> lookup w r = None \<or> os_listdir w ?root = Inr []"
  proof (cases rule: scaffold_cases[of w p n f])
    case (listdir_fail e)
    with run show ?thesis by simp
  next
    case guard
    with run show ?thesis by simp
  next
    case gen
    show ?thesis
    proof (cases "f \<or> lookup w r = None")
      case True
      then show ?thesis by auto
    next
      case False
      with u have d: "lookup w r = Some Dir" by (auto simp: usable_def)
      with rs obtain names where names: "os_listdir w ?root = Inr names"
        by (simp add: os_listdir_def)
      from rs d have "exists w ?root" by (auto simp: exists_iff)
      with gen(1) names False have "names = []"
        by (cases names) (auto simp: guard_fires_def)
      with names show ?thesis by simp
    qed
  qed
  from scaffold_under[OF u fits_free g] run have u': "usable ?D ?F w' ?root r" by simp
  from scaffold_post[OF run] have
    ex1: "\<forall>d\<in>set (dirs ?root). exists w' (init_file d)" and
    ex2: "\<forall>x\<in>set (artifacts ?root n). exists w' (fst x)" by auto
  have m: "is_file w' (init_file d)" if d: "d \<in> set (dirs ?root)" for d
  proof -
    from d obtain dt where dt: "dt \<in> set dir_tails" "d = under ?root dt"
      by (auto simp: dirs_under)
    let ?rel = "dt @ [''__init__.py'']"
    have mt: "?rel \<in> set marker_tails" using dt(1) by (simp add: marker_tails_def)
    then have "file_like ?rel" using marker_tails_like by blast
    then have pl: "''..'' \<notin> set ?rel" by (simp add: file_like_def plain_def)
    have nD: "?rel \<notin> ?D" using mt by (simp add: std_files_def)
    have "exists w' (under ?root ?rel)" using ex1 d dt(2) by (auto simp: init_file_under)
    from file_under[OF u' pl _ nD this] show ?thesis using dt(2) by (simp add: init_file_under)
  qed
  have a: "is_file w' (fst x)" if x: "x \<in> set (artifacts ?root n)" for x
  proof -
    from x have "fst x \<in> set (map fst (artifacts ?root n))" by simp
    then obtain rel where rel: "rel \<in> set artifact_tails" "fst x = under ?root rel"
      by (auto simp: artifacts_under)
    then have "file_like rel" using artifact_tails_like by blast
    then have pl: "''..'' \<notin> set rel" and ne: "rel \<noteq> []" by (simp_all add: file_like_def plain_def)
    have nD: "rel \<notin> ?D" using rel(1) by (simp add: std_files_def)
    have "exists w' (under ?root rel)" using ex2 x rel(2) by auto
    from file_under[OF u' pl ne nD this] show ?thesis using rel(2) by simp
  qed
  from m a show ?thesis by blast
qed

subsection \<open>Facts about the concrete worlds\<close>

lemma write_file_is_dir:
  assumes "is_dir w path" and "is_dir w (parent path)"
  shows "write_file w path c True = (Some IsADirectoryError, w)"
  using mkdir_existing[OF assms(2), of True] os_write_is_dir[OF assms(1), of c]
  by (simp add: write_file_def write_text_def)

lemma artifacts_head:
  "artifacts root n =
     (under root [''pyproject.toml''], \<lambda>w. make_pyproject w n) # tl (artifacts root n)"
  by (simp add: artifacts_def under_def joinpath_def parse_path_def splitroot_def)

lemma is_dir_no_text: "is_dir w p \<Longrightarrow> read_text w p = None"
  by (auto simp: is_dir_def read_text_def split: sum.splits node.splits)


lemma blocked_general:
  assumes u: "usable (insert [''pyproject.toml''] std_dirs) F w root r"
    and mF: "set marker_tails \<subseteq> F" and like: "\<forall>a\<in>F. file_like a"
    and dr: "lookup w r = Some Dir" and dp: "lookup w (r @ [''pyproject.toml'']) = Some Dir"
  shows "\<exists>w1. make_dirs w (dirs root) = (None, w1) \<and>
              usable (insert [''pyproject.toml''] std_dirs) F w1 root r \<and>
              (\<forall>c. write_file w1 (under root [''pyproject.toml'']) c True
                     = (Some IsADirectoryError, w1))"
proof -
  let ?D = "insert [''pyproject.toml''] std_dirs"
  have FD: "F \<inter> std_dirs = {}" using like std_dirs_not_file_like by blast
  have ok: "\<forall>d\<in>set dir_tails. dir_ok ?D F d \<and> marker_ok ?D F (d @ [''__init__.py''])"
  proof
    fix d assume d: "d \<in> set dir_tails"
    have m: "d @ [''__init__.py''] \<in> F" using d mF by (auto simp: marker_tails_def)
    have do: "dir_ok ?D F d"
      using dir_ok_std[of d ?D F] dir_tails_std[OF d] FD by auto
    have "file_like (d @ [''__init__.py''])" using m like by blast
    with m do have "marker_ok ?D F (d @ [''__init__.py''])"
      by (simp add: marker_ok_def file_like_def)
    with do show "dir_ok ?D F d \<and> marker_ok ?D F (d @ [''__init__.py''])" by simp
  qed
  from make_dirs_under[OF u ok] obtain w1 where
    m1: "make_dirs w (dirs root) = (None, w1)" and u1: "usable ?D F w1 root r"
    by (auto simp: dirs_under)
  have e: "ext w w1"
    using make_dirs_changed[of "dirs root" w] m1 by (auto dest: changed_ext)
  have dr1: "lookup w1 r = Some Dir" using dr by (rule ext_dir[OF e])
  have dp1: "lookup w1 (r @ [''pyproject.toml'']) = Some Dir" using dp by (rule ext_dir[OF e])
  from u1 have nn: "\<not> has_nul root" and rs: "resolve w1 root = Inr r" and sh1: "shape ?D F w1 r"
    by (auto simp: usable_def)
  have i1: "is_dir w1 (under root [''pyproject.toml''])"
    by (rule is_dir_under[OF nn rs _ sh1 dp1]) (simp add: plain_def)
  have i2: "is_dir w1 (parent (under root [''pyproject.toml'']))"
    using rs dr1 by (simp add: parent_under under_Nil is_dir_iff)
  have "\<forall>c. write_file w1 (under root [''pyproject.toml'']) c True = (Some IsADirectoryError, w1)"
    using write_file_is_dir[OF i1 i2] by simp
  with m1 u1 show ?thesis by blast
qed

lemma blocked_generate:
  assumes "make_dirs w (dirs root) = (None, w1)"
    and "\<forall>c. write_file w1 (under root [''pyproject.toml'']) c True = (Some IsADirectoryError, w1)"
  shows "generate w root n True = (Raised IsADirectoryError, w1)"
proof -
  have "write_files w1 (artifacts root n) True = (Some IsADirectoryError, w1)"
    using assms(2) by (subst artifacts_head) simp
  with assms(1) show ?thesis by (simp add: generate_def)
qed

lemma usable_blocked:
  "usable (insert [''pyproject.toml''] std_dirs) (set marker_tails) w_blocked
     (PPath ''/'' [''tmp'', ''out'', ''billing'']) [''tmp'', ''out'', ''billing'']"
proof -
  have "shape (insert [''pyproject.toml''] std_dirs) (set marker_tails) w_blocked
          [''tmp'', ''out'', ''billing'']"
    unfolding shape_def by (auto simp: lookup_def w_blocked_def)
  then show ?thesis
    by (simp add: usable_def has_nul_def resolve_def start_def lookup_def w_blocked_def)
qed

lemma blocked_facts:
  "\<exists>w1. make_dirs w_blocked (dirs (project_root ''/tmp/out'' ''billing'')) = (None, w1) \<and>
        (\<forall>c. write_file w1 (under (project_root ''/tmp/out'' ''billing'') [''pyproject.toml'']) c True
           = (Some IsADirectoryError, w1)) \<and>
        \<not> exists w1 (under (project_root ''/tmp/out'' ''billing'') [''requirements.txt''])"
proof -
  let ?root = "PPath ''/'' [''tmp'', ''out'', ''billing'']"
  let ?r = "[''tmp'', ''out'', ''billing'']"
  let ?D = "insert [''pyproject.toml''] std_dirs"
  let ?F = "set marker_tails"
  have dr: "lookup w_blocked ?r = Some Dir" by (simp add: lookup_def w_blocked_def)
  have dp: "lookup w_blocked (?r @ [''pyproject.toml'']) = Some Dir"
    by (simp add: lookup_def w_blocked_def)
  from blocked_general[OF usable_blocked _ marker_tails_like dr dp] obtain w1 where
    m1: "make_dirs w_blocked (dirs ?root) = (None, w1)" and u1: "usable ?D ?F w1 ?root ?r"
    and wf: "\<forall>c. write_file w1 (under ?root [''pyproject.toml'']) c True
               = (Some IsADirectoryError, w1)"
    by blast
  have e: "ext w_blocked w1"
    using make_dirs_changed[of "dirs ?root" w_blocked] m1 by (auto dest: changed_ext)
  have dr1: "lookup w1 ?r = Some Dir" using dr by (rule ext_dir[OF e])
  from u1 have sh1: "shape ?D ?F w1 ?r" by (auto simp: usable_def)
  have nd: "[''requirements.txt''] \<notin> ?D"
    by (simp add: std_dirs_def dir_tails_def)
  have nf: "[''requirements.txt''] \<notin> ?F"
    by (simp add: marker_tails_def dir_tails_def)
  have "case lookup w1 (?r @ [''requirements.txt'']) of None \<Rightarrow> True
        | Some Dir \<Rightarrow> [''requirements.txt''] \<in> ?D \<and>
            lookup w1 (?r @ butlast [''requirements.txt'']) = Some Dir
        | Some (File c) \<Rightarrow> [''requirements.txt''] \<in> ?F \<and>
            lookup w1 (?r @ butlast [''requirements.txt'']) = Some Dir"
    using sh1 unfolding shape_def by blast
  with nd nf have "lookup w1 (?r @ [''requirements.txt'']) = None"
    by (auto split: option.splits node.splits)
  moreover have "exists w1 (under ?root [''requirements.txt'']) \<longleftrightarrow>
                 lookup w1 (?r @ [''requirements.txt'']) \<noteq> None"
    by (rule exists_under[OF u1]) (simp_all add: plain_def dr1)
  ultimately have ne: "\<not> exists w1 (under ?root [''requirements.txt''])" by simp
  from m1 wf ne show ?thesis by (auto simp: root_billing)
qed

lemma blocked_guard: "guard_passes w_blocked (project_root ''/tmp/out'' ''billing'') True"
  by (simp add: guard_passes_def root_billing os_listdir_def has_nul_def resolve_def start_def
      lookup_def w_blocked_def)

lemma blocked_run:
  "\<exists>w1. scaffold w_blocked ''/tmp/out'' ''billing'' True = (Raised IsADirectoryError, w1) \<and>
        make_dirs w_blocked (dirs (project_root ''/tmp/out'' ''billing'')) = (None, w1) \<and>
        \<not> exists w1 (under (project_root ''/tmp/out'' ''billing'') [''requirements.txt''])"
proof -
  let ?root = "project_root ''/tmp/out'' ''billing''"
  from blocked_facts obtain w1 where
    a: "make_dirs w_blocked (dirs ?root) = (None, w1)"
    and b: "\<forall>c. write_file w1 (under ?root [''pyproject.toml'']) c True
              = (Some IsADirectoryError, w1)"
    and c: "\<not> exists w1 (under ?root [''requirements.txt''])" by blast
  from blocked_generate[OF a b]
  have "generate w_blocked ?root ''billing'' True = (Raised IsADirectoryError, w1)" .
  with scaffold_generate[OF blocked_guard] a c show ?thesis by auto
qed





lemma usable_marked:
  "usable (insert [''src'', ''__init__.py''] std_dirs) std_files w_marked
     (PPath ''/'' [''tmp'', ''out'', ''billing'']) [''tmp'', ''out'', ''billing'']"
proof -
  have a: "[''src''] \<in> std_dirs" by (simp add: std_dirs_def dir_tails_def)
  have "shape (insert [''src'', ''__init__.py''] std_dirs) std_files w_marked
          [''tmp'', ''out'', ''billing'']"
    unfolding shape_def using a by (auto simp: lookup_def w_marked_def)
  then show ?thesis
    by (simp add: usable_def has_nul_def resolve_def start_def lookup_def w_marked_def)
qed

lemma marked_before:
  "is_dir w_marked (init_file (joinpath (project_root ''/tmp/out'' ''billing'') ''src''))"
  by (simp add: root_billing init_file_def joinpath_def parse_path_def splitroot_def
      is_dir_def os_stat_def has_nul_def resolve_def start_def lookup_def w_marked_def)

lemma marked_run:
  "fst (scaffold w_marked ''/tmp/out'' ''billing'' True) = Returned \<and>
   is_dir (snd (scaffold w_marked ''/tmp/out'' ''billing'' True))
     (init_file (joinpath (project_root ''/tmp/out'' ''billing'') ''src''))"
proof -
  have m: "[''src'', ''__init__.py''] \<in> set marker_tails"
    by (simp add: marker_tails_def dir_tails_def)
  from scaffold_under[of "insert [''src'', ''__init__.py''] std_dirs" std_files w_marked
      "''/tmp/out''" "''billing''" "[''tmp'', ''out'', ''billing'']" True]
    usable_marked fits_marker_dir[OF m]
  have r: "fst (scaffold w_marked ''/tmp/out'' ''billing'' True) = Returned"
    by (auto simp: root_billing)
  have "ext w_marked (snd (scaffold w_marked ''/tmp/out'' ''billing'' True))"
    using scaffold_changed[of "''/tmp/out''" "''billing''" w_marked True] by (rule changed_ext)
  from is_dir_ext[OF this marked_before] r show ?thesis by simp
qed

lemma root_aliased:
  "project_root ''/tmp/out'' ''x/..'' = PPath ''/'' [''tmp'', ''out'', ''x'', ''..'']"
  by (simp add: project_root_def joinpath_def parse_path_def splitroot_def)

lemma aliased_first:
  "mkdir w_aliased (under (PPath ''/'' [''tmp'', ''out'', ''x'', ''..'']) [''src'']) True True =
     (None, w_aliased\<lparr>entries := ([''tmp'', ''out'', ''x''], Dir) # entries w_aliased\<rparr>)"
proof -
  let ?root = "PPath ''/'' [''tmp'', ''out'', ''x'', ''..'']"
  let ?x = "PPath ''/'' [''tmp'', ''out'', ''x'']"
  let ?p = "under ?root [''src'']"
  let ?w1 = "w_aliased\<lparr>entries := ([''tmp'', ''out'', ''x''], Dir) # entries w_aliased\<rparr>"
  have a: "os_mkdir w_aliased ?p = Inl FileNotFoundError"
    by (simp add: os_mkdir_def under_def has_nul_def start_def lookup_def w_aliased_def)
  have b: "os_mkdir w_aliased ?root = Inl FileNotFoundError"
    by (simp add: os_mkdir_def has_nul_def start_def lookup_def w_aliased_def)
  have c: "os_mkdir w_aliased ?x = Inr ?w1"
    by (simp add: os_mkdir_def has_nul_def start_def lookup_def w_aliased_def)
  have pp: "parent ?p = ?root" "parent ?root = ?x"
    by (simp_all add: parent_def under_def)
  have mx: "mkdir w_aliased ?x True True = (None, ?w1)" using c by (rule mkdir_Inr)
  have ir: "is_dir ?w1 ?root"
    by (simp add: is_dir_def os_stat_def resolve_def has_nul_def start_def lookup_def
        w_aliased_def)
  have ip: "is_dir ?w1 ?p"
    by (simp add: is_dir_def os_stat_def resolve_def under_def has_nul_def start_def lookup_def
        w_aliased_def)
  have ne: "parent ?p \<noteq> ?p" "parent ?root \<noteq> ?root"
    by (simp_all add: parent_def under_def)
  have "mkdir w_aliased ?root True True =
          (case mkdir w_aliased ?x True True of
             (Some e, w') \<Rightarrow> (Some e, w')
           | (None, w') \<Rightarrow> mkdir w' ?root False True)"
    using mkdir_rec[OF b ne(2), of True] by (simp only: pp(2))
  also have "\<dots> = mkdir ?w1 ?root False True" by (simp add: mx)
  also have "\<dots> = (None, ?w1)" by (rule mkdir_existing[OF ir])
  finally have mr: "mkdir w_aliased ?root True True = (None, ?w1)" .
  have "mkdir w_aliased ?p True True =
          (case mkdir w_aliased ?root True True of
             (Some e, w') \<Rightarrow> (Some e, w')
           | (None, w') \<Rightarrow> mkdir w' ?p False True)"
    using mkdir_rec[OF a ne(1), of True] by (simp only: pp(1))
  also have "\<dots> = mkdir ?w1 ?p False True" by (simp add: mr)
  also have "\<dots> = (None, ?w1)" by (rule mkdir_existing[OF ip])
  finally show ?thesis .
qed

lemma usable_aliased:
  "usable (insert [''x''] (insert [''src'', ''__init__.py''] std_dirs)) std_files
     (w_aliased\<lparr>entries := ([''tmp'', ''out'', ''x''], Dir) # entries w_aliased\<rparr>)
     (PPath ''/'' [''tmp'', ''out'', ''x'', ''..'']) [''tmp'', ''out'']"
proof -
  have a: "[''src''] \<in> std_dirs" by (simp add: std_dirs_def dir_tails_def)
  have "shape (insert [''x''] (insert [''src'', ''__init__.py''] std_dirs)) std_files
          (w_aliased\<lparr>entries := ([''tmp'', ''out'', ''x''], Dir) # entries w_aliased\<rparr>)
          [''tmp'', ''out'']"
    unfolding shape_def using a by (auto simp: lookup_def w_aliased_def)
  then show ?thesis
    by (simp add: usable_def has_nul_def resolve_def start_def lookup_def w_aliased_def)
qed

lemma fits_aliased:
  "fits (insert [''x''] (insert [''src'', ''__init__.py''] std_dirs)) std_files"
proof (rule fits_general)
  show "std_files \<inter> std_dirs = {}" using std_apart by blast
  have "[''x''] \<notin> set artifact_tails" by (simp add: artifact_tails_def)
  moreover have "[''src'', ''__init__.py''] \<notin> set artifact_tails"
    by (simp add: artifact_tails_def)
  moreover have "std_dirs \<inter> set artifact_tails = {}"
    using artifact_tails_like std_dirs_not_file_like by blast
  ultimately show "insert [''x''] (insert [''src'', ''__init__.py''] std_dirs)
                   \<inter> set artifact_tails = {}" by blast
qed auto

lemma aliased_run:
  "fst (scaffold w_aliased ''/tmp/out'' ''x/..'' False) = Returned \<and>
   is_dir (snd (scaffold w_aliased ''/tmp/out'' ''x/..'' False))
     (init_file (joinpath (project_root ''/tmp/out'' ''x/..'') ''src''))"
proof -
  let ?root = "PPath ''/'' [''tmp'', ''out'', ''x'', ''..'']"
  let ?w1 = "w_aliased\<lparr>entries := ([''tmp'', ''out'', ''x''], Dir) # entries w_aliased\<rparr>"
  let ?m = "init_file (joinpath ?root ''src'')"
  have ne: "\<not> exists w_aliased ?root"
    by (simp add: exists_def os_stat_def resolve_def has_nul_def start_def lookup_def
        w_aliased_def)
  then have s: "scaffold w_aliased ''/tmp/out'' ''x/..'' False
                = generate w_aliased ?root ''x/..'' False"
    using scaffold_generate[of w_aliased "''/tmp/out''" "''x/..''" False]
    by (simp add: guard_passes_def root_aliased)
  obtain rest where d: "dirs ?root = under ?root [''src''] # rest"
    by (simp add: dirs_under dir_tails_def)
  have ip: "is_dir ?w1 (under ?root [''src''])"
    by (simp add: is_dir_def os_stat_def resolve_def under_def has_nul_def start_def lookup_def
        w_aliased_def)
  have "make_dirs w_aliased (dirs ?root) = make_dirs ?w1 (dirs ?root)"
    unfolding d using aliased_first mkdir_existing[OF ip, of True] by simp
  then have g: "generate w_aliased ?root ''x/..'' False = generate ?w1 ?root ''x/..'' False"
    by (simp add: generate_def)
  from generate_under[OF usable_aliased fits_aliased, of "''x/..''" False] obtain w' where
    r: "generate ?w1 ?root ''x/..'' False = (Returned, w')" by blast
  have im: "is_dir ?w1 ?m"
    by (simp add: init_file_def joinpath_def parse_path_def splitroot_def
        is_dir_def os_stat_def resolve_def has_nul_def start_def lookup_def w_aliased_def)
  have "ext ?w1 (snd (generate ?w1 ?root ''x/..'' False))"
    using generate_changed[of ?root "''x/..''" ?w1 False] by (rule changed_ext)
  from is_dir_ext[OF this im] s g r show ?thesis by (simp add: root_aliased)
qed

lemma usable_other:
  "usable D F w_other (PPath ''/'' [''srv'', ''billing'']) [''srv'', ''billing'']"
  by (simp add: usable_def has_nul_def resolve_def start_def shape_def lookup_def w_other_def)

lemma root_other: "project_root ''/srv'' ''billing'' = PPath ''/'' [''srv'', ''billing'']"
  by (simp add: project_root_def joinpath_def parse_path_def splitroot_def)

lemma run_other:
  "\<exists>w'. scaffold w_other ''/srv'' ''billing'' True = (Returned, w')"
proof -
  have "lookup w_other [''srv'', ''billing''] = None"
    by (simp add: lookup_def w_other_def)
  with scaffold_under[of std_dirs std_files w_other "''/srv''" "''billing''"
      "[''srv'', ''billing'']" True] usable_other fits_std
  show ?thesis by (auto simp: root_other)
qed

lemma listdir_used:
  "exists w_used (project_root ''/tmp/out'' ''billing'') \<and>
   os_listdir w_used (project_root ''/tmp/out'' ''billing'') = Inr [''src'', ''Makefile'', ''notes.txt'']"
  by (simp add: root_billing exists_def os_stat_def os_listdir_def has_nul_def resolve_def start_def
      lookup_def w_used_def)

lemma unobstructed_fresh: "unobstructed w_fresh (project_root ''/tmp/out'' ''billing'')"
  unfolding unobstructed_usable root_billing using usable_fresh by blast

lemma fresh_resolve:
  "resolve w_fresh (project_root ''/tmp/out'' ''billing'') = Inr [''tmp'', ''out'', ''billing'']"
  by (simp add: root_billing has_nul_def resolve_def start_def lookup_def w_fresh_def)

section \<open>The claims\<close>

text \<open>
  C1. The claim: a second run with the same parameters and \<open>force = False\<close>, on the tree
  a first successful run produced, completes without error, leaves the file system as it
  was and reports every item as skipped. The program does otherwise, by its root guard:
  the tree of the first run is not empty, so the second run prints the error line and
  exits with status 1. What holds: after a run that returned, a run with the same path
  and name and \<open>force = False\<close> ends in \<open>SysExit 1\<close>, and its final state is the state
  it started from with one more printed line (no entry is touched).
\<close>

theorem rerun_stopped_by_guard:
  assumes "scaffold w p n False = (Returned, w')"
  shows "scaffold w' p n False =
           (SysExit 1,
            print w' (''[ERROR] Target path already exists and is not empty: ''
                       @ str_path (project_root p n)))"
  using assms by (rule rerun_guard)

theorem rerun_stopped_by_guard_witness:
  "fst (scaffold w_fresh ''/tmp/out'' ''billing'' False) = Returned \<and>
   entries (snd (scaffold (snd (scaffold w_fresh ''/tmp/out'' ''billing'' False))
                   ''/tmp/out'' ''billing'' False))
     = entries (snd (scaffold w_fresh ''/tmp/out'' ''billing'' False))"
proof -
  from run_fresh[of False] obtain w' where
    r: "scaffold w_fresh ''/tmp/out'' ''billing'' False = (Returned, w')" by blast
  from rerun_stopped_by_guard[OF r] r show ?thesis by simp
qed

theorem rerun_counterexample:
  "fst (scaffold w_fresh ''/tmp/out'' ''billing'' False) = Returned \<and>
   fst (scaffold (snd (scaffold w_fresh ''/tmp/out'' ''billing'' False))
          ''/tmp/out'' ''billing'' False) = SysExit 1"
proof -
  from run_fresh[of False] obtain w' where
    r: "scaffold w_fresh ''/tmp/out'' ''billing'' False = (Returned, w')" by blast
  from rerun_guard[OF r] r show ?thesis by simp
qed

text \<open>
  C2. When the root (the project path joined with the project name) exists and
  \<^verbatim>\<open>iterdir\<close> finds at least one entry in it, a run with \<open>force = False\<close> prints the
  error line and leaves by \<^verbatim>\<open>sys.exit(1)\<close>: the outcome is \<open>SysExit 1\<close> and the final
  state is the initial state with that line printed, so no file or directory was created
  or changed.
\<close>

theorem root_guard_aborts:
  assumes "exists w (project_root p n)"
    and "os_listdir w (project_root p n) = Inr (x # xs)"
  shows "scaffold w p n False =
           (SysExit 1,
            print w (''[ERROR] Target path already exists and is not empty: ''
                      @ str_path (project_root p n)))"
  using assms by (simp add: scaffold_def project_root_def)

theorem root_guard_aborts_witness:
  "exists w_used (project_root ''/tmp/out'' ''billing'') \<and>
   os_listdir w_used (project_root ''/tmp/out'' ''billing'') = Inr [''src'', ''Makefile'', ''notes.txt''] \<and>
   fst (scaffold w_used ''/tmp/out'' ''billing'' False) = SysExit 1 \<and>
   entries (snd (scaffold w_used ''/tmp/out'' ''billing'' False)) = entries w_used"
  using listdir_used
    root_guard_aborts[of w_used "''/tmp/out''" "''billing''" "''src''" "[''Makefile'', ''notes.txt'']"]
  by simp

text \<open>
  C3. The claim: a write that fails is recorded as failed and the run goes on to the
  other artifacts. The program has no handler: the exception of \<^verbatim>\<open>write_file\<close>
  leaves \<^verbatim>\<open>scaffold\<close>. What holds: when the guard lets the run pass, the directories
  are made, the artifacts before one artifact are processed and the write of that artifact
  raises \<open>e\<close>, the run ends with \<open>Raised e\<close> in the state that write left; the artifacts
  after it are not attempted.
\<close>

theorem write_failure_aborts:
  assumes "guard_passes w (project_root p n) f"
    and "make_dirs w (dirs (project_root p n)) = (None, w1)"
    and "artifacts (project_root p n) n = xs @ (path, render) # ys"
    and "write_files w1 xs f = (None, w2)"
    and "write_file w2 path (render w2) f = (Some e, w3)"
  shows "scaffold w p n f = (Raised e, w3)"
proof -
  have "write_files w1 (xs @ (path, render) # ys) f = (Some e, w3)"
    using assms(4,5) by (simp add: write_files_append)
  with assms(2,3) have "generate w (project_root p n) n f = (Raised e, w3)"
    by (simp add: generate_def)
  with scaffold_generate[OF assms(1)] show ?thesis by simp
qed

theorem write_failure_aborts_witness:
  "scaffold w_blocked ''/tmp/out'' ''billing'' True =
     (Raised IsADirectoryError,
      snd (make_dirs w_blocked (dirs (project_root ''/tmp/out'' ''billing''))))"
proof -
  let ?root = "project_root ''/tmp/out'' ''billing''"
  from blocked_facts obtain w1 where
    a: "make_dirs w_blocked (dirs ?root) = (None, w1)"
    and b: "\<forall>c. write_file w1 (under ?root [''pyproject.toml'']) c True
              = (Some IsADirectoryError, w1)" by blast
  have c: "artifacts ?root ''billing'' =
             [] @ (under ?root [''pyproject.toml''], \<lambda>w. make_pyproject w ''billing'')
                # tl (artifacts ?root ''billing'')"
    using artifacts_head[of ?root "''billing''"] by simp
  have d: "write_files w1 [] True = (None, w1)" by simp
  from b have b': "write_file w1 (under ?root [''pyproject.toml''])
                     ((\<lambda>w. make_pyproject w ''billing'') w1) True
                   = (Some IsADirectoryError, w1)" by simp
  from write_failure_aborts[OF blocked_guard a c d b'] a show ?thesis by simp
qed

theorem write_failure_counterexample:
  "fst (scaffold w_blocked ''/tmp/out'' ''billing'' True) = Raised IsADirectoryError \<and>
   \<not> exists (snd (scaffold w_blocked ''/tmp/out'' ''billing'' True))
       (joinpath (project_root ''/tmp/out'' ''billing'') ''requirements.txt'')"
proof -
  have "joinpath (project_root ''/tmp/out'' ''billing'') ''requirements.txt''
        = under (project_root ''/tmp/out'' ''billing'') [''requirements.txt'']"
    by (simp add: under_def joinpath_def parse_path_def splitroot_def)
  with blocked_run show ?thesis by auto
qed

text \<open>
  C4. The claim: with the overwrite flag set, an existing marker file is rewritten with
  the marker text. \<^verbatim>\<open>write_init\<close> has a \<open>force\<close> parameter for this, but
  \<^verbatim>\<open>scaffold\<close> calls \<^verbatim>\<open>write_init(d)\<close> without it, so the marker is written only
  where none exists. In the world \<open>w_used\<close> the marker of \<^verbatim>\<open>src\<close> holds the text
  \<^verbatim>\<open>x = 1\<close>; after a run with \<open>force = True\<close>, which returns, it still does.
\<close>

theorem marker_kept_under_force:
  "fst (scaffold w_used ''/tmp/out'' ''billing'' True) = Returned \<and>
   read_text w_used (init_file (joinpath (project_root ''/tmp/out'' ''billing'') ''src''))
     = Some ''x = 1'' \<and>
   read_text (snd (scaffold w_used ''/tmp/out'' ''billing'' True))
       (init_file (joinpath (project_root ''/tmp/out'' ''billing'') ''src''))
     = Some ''x = 1''"
proof -
  have a: "read_text w_used (init_file (joinpath (project_root ''/tmp/out'' ''billing'') ''src''))
        = Some ''x = 1''"
    by (simp add: root_billing init_file_def joinpath_def parse_path_def splitroot_def
        read_text_def os_stat_def has_nul_def resolve_def start_def lookup_def w_used_def)
  from marker_kept[OF src_first a] run_used a show ?thesis by auto
qed

text \<open>
  C5. The claim: an empty or malformed project name or path is rejected with an
  invalid-parameter condition before any input or output. The program checks nothing.
  With the empty name the root is the project path itself, and the run goes on there:
  when it returns, the declared directories and their markers exist directly under the
  project path. A path or name with a NUL character in a segment is not rejected either,
  but the first \<^verbatim>\<open>mkdir\<close> then raises \<open>ValueError\<close> and nothing has been created.
\<close>

theorem no_parameter_validation:
  "project_root p '''' = parse_path p \<and>
   (has_nul (project_root p n) \<longrightarrow> scaffold w p n f = (Raised ValueError, w)) \<and>
   (scaffold w p '''' f = (Returned, w') \<longrightarrow>
      (\<forall>d\<in>set (dirs (parse_path p)). is_dir w' d \<and> exists w' (init_file d)))"
  using scaffold_post[of w p "''''" f w'] nul_stops[of p n w f]
  by (simp add: root_empty)

theorem no_parameter_validation_witness:
  "has_nul (project_root ''/tmp/out'' [CHR 0x00]) \<and>
   scaffold w_plain ''/tmp/out'' [CHR 0x00] False = (Raised ValueError, w_plain) \<and>
   fst (scaffold w_plain ''/tmp/out'' '''' False) = Returned \<and>
   is_dir (snd (scaffold w_plain ''/tmp/out'' '''' False)) (parse_path ''/tmp/out/tests/domain'') \<and>
   exists (snd (scaffold w_plain ''/tmp/out'' '''' False))
     (parse_path ''/tmp/out/tests/domain/__init__.py'')"
proof -
  have n: "has_nul (project_root ''/tmp/out'' [CHR 0x00])"
    by (simp add: project_root_def joinpath_def parse_path_def splitroot_def has_nul_def)
  from run_plain obtain w' where
    r: "scaffold w_plain ''/tmp/out'' '''' False = (Returned, w')" by blast
  have d: "parse_path ''/tmp/out/tests/domain'' \<in> set (dirs (parse_path ''/tmp/out''))"
    by (simp add: dirs_def joinpath_def parse_path_def splitroot_def)
  have i: "init_file (parse_path ''/tmp/out/tests/domain'')
           = parse_path ''/tmp/out/tests/domain/__init__.py''"
    by (simp add: init_file_def joinpath_def parse_path_def splitroot_def)
  from no_parameter_validation[of "''/tmp/out''" "[CHR 0x00]" w_plain False w'] n r d i
  show ?thesis by auto
qed

theorem empty_name_counterexample:
  "fst (scaffold w_plain ''/tmp/out'' '''' False) = Returned \<and>
   is_dir (snd (scaffold w_plain ''/tmp/out'' '''' False)) (parse_path ''/tmp/out/src'')"
proof -
  from run_plain obtain w' where
    r: "scaffold w_plain ''/tmp/out'' '''' False = (Returned, w')" by blast
  have "parse_path ''/tmp/out/src'' = joinpath (project_root ''/tmp/out'' '''') ''src''"
    by (simp add: project_root_def joinpath_def parse_path_def splitroot_def)
  with scaffold_post[OF r] src_first[of "project_root ''/tmp/out'' ''''"] r
  show ?thesis by auto
qed




text \<open>
  C7. The claim: after a successful run, every declared directory exists and contains
  its marker file, and every artifact exists at its path under the root. The marker is
  written only where \<^verbatim>\<open>exists()\<close> finds nothing, and a directory is something. In
  \<open>w_aliased\<close> the directory \<^verbatim>\<open>/tmp/out/src\<close> holds a directory named
  \<^verbatim>\<open>__init__.py\<close>; the run with the name \<^verbatim>\<open>x/..\<close> and \<open>force = False\<close> passes the
  guard (\<^verbatim>\<open>/tmp/out/x\<close> is missing), makes \<^verbatim>\<open>x\<close>, works in \<^verbatim>\<open>/tmp/out\<close> and returns,
  and the marker path of \<^verbatim>\<open>src\<close> is still a directory. The same happens in \<open>w_marked\<close>
  with the name \<^verbatim>\<open>billing\<close> and \<open>force = True\<close>. What holds: after a run that returns,
  every declared directory is a directory, its marker path \<^verbatim>\<open>__init__.py\<close> exists in it
  and every artifact path exists; and when the destination is \<open>unobstructed\<close> (no
  directory stands where a marker or an artifact goes, no file where a directory goes),
  every marker and every artifact is a regular file.
\<close>

theorem successful_run_complete:
  assumes "scaffold w p n f = (Returned, w')"
  shows "(\<forall>d\<in>set (dirs (project_root p n)). is_dir w' d \<and> exists w' (init_file d)) \<and>
         (\<forall>x\<in>set (artifacts (project_root p n) n). exists w' (fst x)) \<and>
         (unobstructed w (project_root p n) \<longrightarrow>
            (\<forall>d\<in>set (dirs (project_root p n)). is_file w' (init_file d)) \<and>
            (\<forall>x\<in>set (artifacts (project_root p n) n). is_file w' (fst x)))"
  using scaffold_post[OF assms] scaffold_files[OF assms] by blast

theorem successful_run_complete_witness:
  "unobstructed w_fresh (project_root ''/tmp/out'' ''billing'') \<and>
   fst (scaffold w_fresh ''/tmp/out'' ''billing'' False) = Returned \<and>
   is_dir (snd (scaffold w_fresh ''/tmp/out'' ''billing'' False))
     (parse_path ''/tmp/out/billing/src/api/v1/endpoints'') \<and>
   is_file (snd (scaffold w_fresh ''/tmp/out'' ''billing'' False))
     (parse_path ''/tmp/out/billing/src/api/v1/endpoints/__init__.py'') \<and>
   is_file (snd (scaffold w_fresh ''/tmp/out'' ''billing'' False))
     (parse_path ''/tmp/out/billing/infra/docker-compose.yml'')"
proof -
  from run_fresh[of False] obtain w' where
    r: "scaffold w_fresh ''/tmp/out'' ''billing'' False = (Returned, w')" by blast
  have d: "parse_path ''/tmp/out/billing/src/api/v1/endpoints''
           \<in> set (dirs (project_root ''/tmp/out'' ''billing''))"
    by (simp add: project_root_def dirs_def joinpath_def parse_path_def splitroot_def)
  have i: "init_file (parse_path ''/tmp/out/billing/src/api/v1/endpoints'')
           = parse_path ''/tmp/out/billing/src/api/v1/endpoints/__init__.py''"
    by (simp add: init_file_def joinpath_def parse_path_def splitroot_def)
  have a: "parse_path ''/tmp/out/billing/infra/docker-compose.yml''
           \<in> fst ` set (artifacts (project_root ''/tmp/out'' ''billing'') ''billing'')"
    by (simp add: project_root_def artifacts_def joinpath_def parse_path_def splitroot_def)
  from successful_run_complete[OF r] unobstructed_fresh r d i a show ?thesis by auto
qed

theorem marker_counterexample:
  "fst (scaffold w_aliased ''/tmp/out'' ''x/..'' False) = Returned \<and>
   is_dir (snd (scaffold w_aliased ''/tmp/out'' ''x/..'' False))
     (init_file (joinpath (project_root ''/tmp/out'' ''x/..'') ''src'')) \<and>
   \<not> is_file (snd (scaffold w_aliased ''/tmp/out'' ''x/..'' False))
     (init_file (joinpath (project_root ''/tmp/out'' ''x/..'') ''src'')) \<and>
   fst (scaffold w_marked ''/tmp/out'' ''billing'' True) = Returned \<and>
   is_dir (snd (scaffold w_marked ''/tmp/out'' ''billing'' True))
     (init_file (joinpath (project_root ''/tmp/out'' ''billing'') ''src'')) \<and>
   \<not> is_file (snd (scaffold w_marked ''/tmp/out'' ''billing'' True))
     (init_file (joinpath (project_root ''/tmp/out'' ''billing'') ''src''))"
proof -
  have "is_dir w p \<Longrightarrow> \<not> is_file w p" for w p
    by (auto simp: is_dir_def is_file_def split: sum.splits node.splits)
  with marked_run aliased_run show ?thesis by blast
qed

text \<open>
  C8. The text a render function returns depends on the project name only. Every
  \<^verbatim>\<open>make_*\<close> function is handed the state of the process it is called in: the file
  system, the working directory, the output so far, the clock and the environment
  variables. For the same name, \<^verbatim>\<open>make_pyproject\<close> and \<^verbatim>\<open>make_compose\<close> return the
  same text in any two states, and so does the render call of every artifact of the
  catalogue, in the catalogue's order and for any two roots. The example takes two
  states that differ in clock and environment and gives the two texts for the name
  \<^verbatim>\<open>billing\<close>.
\<close>

theorem rendered_text_depends_on_name_only:
  "make_pyproject w1 n = make_pyproject w2 n \<and>
   make_compose w1 n = make_compose w2 n \<and>
   map (\<lambda>x. snd x w1) (artifacts root1 n) = map (\<lambda>x. snd x w2) (artifacts root2 n)"
proof -
  note c = make_fixed[where u = w1 and v = w2]
  have "map (\<lambda>x. snd x w1) (artifacts root1 n) = map (\<lambda>x. snd x w2) (artifacts root2 n)"
    by (simp add: artifacts_def c)
  with c(1) c(5) show ?thesis by simp
qed

theorem rendered_text_depends_on_name_only_witness:
  \<open>clock w_used \<noteq> clock w_other \<and> environ w_used \<noteq> environ w_other \<and>
   make_pyproject w_used ''billing'' = make_pyproject w_other ''billing'' \<and>
   make_compose w_used ''billing'' = make_compose w_other ''billing'' \<and>
   make_pyproject w_other ''billing'' = concat [
     ''[project]\<newline>'',
     ''name = "billing"\<newline>'',
     ''version = "0.1.0"\<newline>'',
     ''description = "DDD FastAPI service"\<newline>'',
     ''requires-python = ">=3.11"\<newline>'',
     ''dependencies = [\<newline>'',
     ''  "fastapi[all]>=0.116.1",\<newline>'',
     ''  "pydantic>=2.3.0",\<newline>'',
     ''  "python-dotenv",\<newline>'',
     '']\<newline>'',
     ''\<newline>'',
     ''[tool.pytest.ini_options]\<newline>'',
     ''addopts = "-q"\<newline>'',
     ''testpaths = ["tests"]\<newline>''] \<and>
   make_compose w_other ''billing'' = concat [
     ''services:\<newline>'',
     ''  app:\<newline>'',
     ''    build:\<newline>'',
     ''      context: ../\<newline>'',
     ''      dockerfile: Dockerfile\<newline>'',
     ''    container_name: billing-app\<newline>'',
     ''    ports:\<newline>'',
     ''      - "8000:8000"\<newline>'',
     ''    volumes:\<newline>'',
     ''      - ../:/app\<newline>'',
     ''    env_file:\<newline>'',
     ''      - ../.env\<newline>'',
     ''    command: uvicorn src.main:app --host 0.0.0.0 --port 8000 --reload\<newline>'']\<close>
proof -
  have a: "clock w_used \<noteq> clock w_other \<and> environ w_used \<noteq> environ w_other"
    by (simp add: w_used_def w_other_def)
  have b: \<open>make_pyproject w_other ''billing'' = concat [
     ''[project]\<newline>'',
     ''name = "billing"\<newline>'',
     ''version = "0.1.0"\<newline>'',
     ''description = "DDD FastAPI service"\<newline>'',
     ''requires-python = ">=3.11"\<newline>'',
     ''dependencies = [\<newline>'',
     ''  "fastapi[all]>=0.116.1",\<newline>'',
     ''  "pydantic>=2.3.0",\<newline>'',
     ''  "python-dotenv",\<newline>'',
     '']\<newline>'',
     ''\<newline>'',
     ''[tool.pytest.ini_options]\<newline>'',
     ''addopts = "-q"\<newline>'',
     ''testpaths = ["tests"]\<newline>'']\<close>
    unfolding make_pyproject_def by code_simp
  have c: \<open>make_compose w_other ''billing'' = concat [
     ''services:\<newline>'',
     ''  app:\<newline>'',
     ''    build:\<newline>'',
     ''      context: ../\<newline>'',
     ''      dockerfile: Dockerfile\<newline>'',
     ''    container_name: billing-app\<newline>'',
     ''    ports:\<newline>'',
     ''      - "8000:8000"\<newline>'',
     ''    volumes:\<newline>'',
     ''      - ../:/app\<newline>'',
     ''    env_file:\<newline>'',
     ''      - ../.env\<newline>'',
     ''    command: uvicorn src.main:app --host 0.0.0.0 --port 8000 --reload\<newline>'']\<close>
    unfolding make_compose_def by code_simp
  from rendered_text_depends_on_name_only[of w_used "''billing''" w_other]
  have "make_pyproject w_used ''billing'' = make_pyproject w_other ''billing'' \<and>
        make_compose w_used ''billing'' = make_compose w_other ''billing''" by simp
  with a b c show ?thesis by simp
qed

text \<open>
  C9. The root of the generated tree is the project path joined with the project name.
  The run leaves by \<^verbatim>\<open>sys.exit(1)\<close> exactly when \<open>force\<close> is not set and that joined
  path exists with at least one entry; so when the joined path does not exist or has no
  entry the guard does not stop the run, whatever the project path itself holds. After a
  run that returns, every declared directory and every artifact is there under the
  joined path. And when the joined path can be resolved (its parents exist), the run
  leaves every node that is not at or below the place it leads to as it was: nothing is
  put into the project path itself but the root.
\<close>

theorem root_is_path_joined_with_name:
  "(fst (scaffold w p n f) = SysExit 1 \<longleftrightarrow> guard_fires w (joinpath (parse_path p) n) f) \<and>
   (\<not> exists w (joinpath (parse_path p) n) \<or> os_listdir w (joinpath (parse_path p) n) = Inr []
      \<longrightarrow> fst (scaffold w p n f) \<noteq> SysExit 1) \<and>
   (scaffold w p n f = (Returned, w') \<longrightarrow>
      (\<forall>rel\<in>set dir_tails. is_dir w' (under (joinpath (parse_path p) n) rel)) \<and>
      (\<forall>rel\<in>set artifact_tails. exists w' (under (joinpath (parse_path p) n) rel))) \<and>
   (resolve w (joinpath (parse_path p) n) = Inr r \<longrightarrow>
      (\<forall>q. \<not> prefix r q \<longrightarrow> lookup (snd (scaffold w p n f)) q = lookup w q))"
proof -
  let ?root = "joinpath (parse_path p) n"
  have r: "project_root p n = ?root" by (simp add: project_root_def)
  have g: "fst (scaffold w p n f) = SysExit 1 \<longleftrightarrow> guard_fires w ?root f"
    using generate_not_exit[of w ?root n f 1]
    by (cases rule: scaffold_cases[of w p n f]) (auto simp: r guard_fires_def)
  from g have e: "\<not> exists w ?root \<or> os_listdir w ?root = Inr [] \<longrightarrow> fst (scaffold w p n f) \<noteq> SysExit 1"
    by (auto simp: guard_fires_def)
  have pl: "scaffold w p n f = (Returned, w') \<longrightarrow>
      (\<forall>rel\<in>set dir_tails. is_dir w' (under ?root rel)) \<and>
      (\<forall>rel\<in>set artifact_tails. exists w' (under ?root rel))"
  proof
    assume run: "scaffold w p n f = (Returned, w')"
    from scaffold_post[OF run] have
      d: "\<forall>d\<in>set (dirs ?root). is_dir w' d" and
      a: "\<forall>x\<in>set (artifacts ?root n). exists w' (fst x)" by (auto simp: r)
    from d have d': "\<forall>rel\<in>set dir_tails. is_dir w' (under ?root rel)"
      by (simp add: dirs_under)
    from a have "\<forall>path\<in>set (map fst (artifacts ?root n)). exists w' path" by simp
    then have "\<forall>rel\<in>set artifact_tails. exists w' (under ?root rel)"
      by (simp add: artifacts_under)
    with d' show "(\<forall>rel\<in>set dir_tails. is_dir w' (under ?root rel)) \<and>
      (\<forall>rel\<in>set artifact_tails. exists w' (under ?root rel))" by simp
  qed
  have ins: "resolve w ?root = Inr r \<longrightarrow>
      (\<forall>q. \<not> prefix r q \<longrightarrow> lookup (snd (scaffold w p n f)) q = lookup w q)"
  proof
    assume "resolve w ?root = Inr r"
    then have "inside r w (snd (scaffold w p n f))"
      using scaffold_inside[of w p n r f] by (simp add: project_root_def)
    then show "\<forall>q. \<not> prefix r q \<longrightarrow> lookup (snd (scaffold w p n f)) q = lookup w q"
      by (simp only: inside_def)
  qed
  from g e pl ins show ?thesis by blast
qed

theorem root_is_path_joined_with_name_witness:
  "exists w_fresh (parse_path ''/tmp/out'') \<and>
   os_listdir w_fresh (parse_path ''/tmp/out'') = Inr [''other''] \<and>
   \<not> exists w_fresh (joinpath (parse_path ''/tmp/out'') ''billing'') \<and>
   fst (scaffold w_fresh ''/tmp/out'' ''billing'' False) = Returned \<and>
   is_dir (snd (scaffold w_fresh ''/tmp/out'' ''billing'' False))
     (parse_path ''/tmp/out/billing/src'') \<and>
   exists (snd (scaffold w_fresh ''/tmp/out'' ''billing'' False))
     (parse_path ''/tmp/out/billing/pyproject.toml'') \<and>
   lookup (snd (scaffold w_fresh ''/tmp/out'' ''billing'' False)) [''tmp'', ''out'', ''src''] = None \<and>
   lookup (snd (scaffold w_fresh ''/tmp/out'' ''billing'' False))
     [''tmp'', ''out'', ''pyproject.toml''] = None"
proof -
  let ?root = "joinpath (parse_path ''/tmp/out'') ''billing''"
  let ?w' = "snd (scaffold w_fresh ''/tmp/out'' ''billing'' False)"
  have a: "exists w_fresh (parse_path ''/tmp/out'') \<and>
           os_listdir w_fresh (parse_path ''/tmp/out'') = Inr [''other'']"
    by (simp add: parse_path_def splitroot_def exists_def os_stat_def os_listdir_def has_nul_def
        resolve_def start_def lookup_def w_fresh_def)
  have b: "\<not> exists w_fresh ?root"
    by (simp add: joinpath_def parse_path_def splitroot_def exists_def os_stat_def has_nul_def
        resolve_def start_def lookup_def w_fresh_def)
  from run_fresh[of False] obtain w' where
    run: "scaffold w_fresh ''/tmp/out'' ''billing'' False = (Returned, w')" by blast
  have rs: "resolve w_fresh ?root = Inr [''tmp'', ''out'', ''billing'']"
    using fresh_resolve by (simp add: project_root_def)
  note t = root_is_path_joined_with_name[of w_fresh "''/tmp/out''" "''billing''" False w'
      "[''tmp'', ''out'', ''billing'']"]
  have s: "[''src''] \<in> set dir_tails" by (simp add: dir_tails_def)
  have y: "[''pyproject.toml''] \<in> set artifact_tails" by (simp add: artifact_tails_def)
  have u1: "under ?root [''src''] = parse_path ''/tmp/out/billing/src''"
    by (simp add: under_def joinpath_def parse_path_def splitroot_def)
  have u2: "under ?root [''pyproject.toml''] = parse_path ''/tmp/out/billing/pyproject.toml''"
    by (simp add: under_def joinpath_def parse_path_def splitroot_def)
  from t run s u1 have c1: "is_dir ?w' (parse_path ''/tmp/out/billing/src'')" by auto
  from t run y u2 have c2: "exists ?w' (parse_path ''/tmp/out/billing/pyproject.toml'')" by auto
  have n1: "\<not> prefix [''tmp'', ''out'', ''billing''] [''tmp'', ''out'', ''src'']" by simp
  have n2: "\<not> prefix [''tmp'', ''out'', ''billing''] [''tmp'', ''out'', ''pyproject.toml'']" by simp
  from t rs n1 have "lookup ?w' [''tmp'', ''out'', ''src''] = lookup w_fresh [''tmp'', ''out'', ''src'']"
    by blast
  then have c3: "lookup ?w' [''tmp'', ''out'', ''src''] = None"
    by (simp add: lookup_def w_fresh_def)
  from t rs n2 have "lookup ?w' [''tmp'', ''out'', ''pyproject.toml'']
                     = lookup w_fresh [''tmp'', ''out'', ''pyproject.toml'']"
    by blast
  then have c4: "lookup ?w' [''tmp'', ''out'', ''pyproject.toml''] = None"
    by (simp add: lookup_def w_fresh_def)
  from a b run c1 c2 c3 c4 show ?thesis by simp
qed

text \<open>
  C10. A run, with or without \<open>force\<close> and however it ends, changes the file system only
  in two ways: a directory appears where nothing was, or the node is the one a declared
  path (a marker or an artifact) leads to. Every other node, in particular every file
  that is not at a declared path, is in the final state what it was, and nothing is
  removed.
\<close>

theorem only_declared_paths_written:
  "(\<forall>q. lookup (snd (scaffold w p n f)) q = lookup w q \<or>
        (lookup w q = None \<and> lookup (snd (scaffold w p n f)) q = Some Dir) \<or>
        (\<exists>path\<in>declared (project_root p n) n. resolve (snd (scaffold w p n f)) path = Inr q)) \<and>
   (\<forall>q. lookup w q \<noteq> None \<longrightarrow> lookup (snd (scaffold w p n f)) q \<noteq> None)"
proof -
  have c: "changed (declared (project_root p n) n) w (snd (scaffold w p n f))"
    by (rule scaffold_changed)
  then have "ext w (snd (scaffold w p n f))" by (rule changed_ext)
  then have "\<forall>q. lookup w q \<noteq> None \<longrightarrow> lookup (snd (scaffold w p n f)) q \<noteq> None"
    unfolding ext_def by fastforce
  with c show ?thesis unfolding changed_def by blast
qed

theorem only_declared_paths_written_witness:
  "lookup w_used [''tmp'', ''out'', ''billing'', ''notes.txt''] = Some (File ''keep'') \<and>
   lookup (snd (scaffold w_used ''/tmp/out'' ''billing'' True))
     [''tmp'', ''out'', ''billing'', ''notes.txt''] = Some (File ''keep'')"
proof -
  let ?root = "PPath ''/'' [''tmp'', ''out'', ''billing'']"
  let ?q = "[''tmp'', ''out'', ''billing'', ''notes.txt'']"
  let ?w' = "snd (scaffold w_used ''/tmp/out'' ''billing'' True)"
  have a: "lookup w_used ?q = Some (File ''keep'')"
    by (simp add: lookup_def w_used_def)
  from run_used have rs: "resolve ?w' ?root = Inr [''tmp'', ''out'', ''billing'']"
    by (auto simp: usable_def)
  have n: "[''notes.txt''] \<notin> set marker_tails \<union> set artifact_tails"
    by (simp add: marker_tails_def dir_tails_def artifact_tails_def)
  have "\<not> (\<exists>path\<in>declared ?root ''billing''. resolve ?w' path = Inr ?q)"
  proof
    assume "\<exists>path\<in>declared ?root ''billing''. resolve ?w' path = Inr ?q"
    then obtain rel where rel: "rel \<in> set marker_tails \<union> set artifact_tails"
      "resolve ?w' (under ?root rel) = Inr ?q" by (auto simp: declared_under)
    have "''..'' \<notin> set rel"
      using rel(1) marker_tails_like artifact_tails_like by (auto simp: file_like_def plain_def)
    from resolve_under[OF this rel(2)] rs have "rel = [''notes.txt'']" by simp
    with rel(1) n show False by simp
  qed
  moreover from only_declared_paths_written[of w_used "''/tmp/out''" "''billing''" True]
  have "lookup ?w' ?q = lookup w_used ?q \<or>
        (lookup w_used ?q = None \<and> lookup ?w' ?q = Some Dir) \<or>
        (\<exists>path\<in>declared ?root ''billing''. resolve ?w' path = Inr ?q)"
    unfolding root_billing by blast
  ultimately show ?thesis using a by auto
qed

end
